theory Spec2Isabelle
  imports Main "HOL-Library.Word" "HOL-Library.Monad_Syntax"
begin

section \<open>The title interceptor of catnip: \<open>container/c/title_interceptor.c\<close>\<close>

text \<open>
  The library interposes on \<open>write\<close>: every call is forwarded to the platform's own
  \<open>write\<close>, and the bytes the platform accepted on standard output or standard error are
  scanned for the terminal sequences \<open>ESC ] 0 ;\<close> and \<open>ESC ] 2 ;\<close> that set a window
  title. Each title found is appended, with a time stamp, the process id and the working
  directory, to a log file.

  The embedding keeps the C types: \<open>size_t\<close> and \<open>ssize_t\<close> are 64-bit words (so that
  \<open>count - 4\<close> wraps as it does in C), a buffer is the list of bytes that can be read
  from the pointer upwards, and reading past that list is a fault of the run, not a value.
\<close>

subsection \<open>Machine types and memory\<close>

type_synonym size_t = "64 word"
type_synonym ssize_t = "64 word"

text \<open>
  A pointer to bytes is modelled by the bytes readable from it, in address order.
  \<open>peek data i\<close> is the C expression \<open>data[i]\<close>: \<open>None\<close> when offset \<open>i\<close> is not
  readable.
\<close>

definition peek :: "string \<Rightarrow> size_t \<Rightarrow> char option" where
  "peek data i = (if unat i < length data then Some (data ! unat i) else None)"

text \<open>\<open>memcpy(title, data + start, len)\<close>: the bytes copied, \<open>None\<close> when the source
  range is not readable.\<close>

definition memcpy :: "string \<Rightarrow> size_t \<Rightarrow> size_t \<Rightarrow> string option" where
  "memcpy data start len =
     (if unat start + unat len \<le> length data
      then Some (take (unat len) (drop (unat start) data)) else None)"

text \<open>The bytes readable through a pointer: none through the null pointer.\<close>

definition bytes_at :: "string option \<Rightarrow> string" where
  "bytes_at buf = (case buf of None \<Rightarrow> [] | Some data \<Rightarrow> data)"

definition ESC :: char where "ESC = CHR 0x1B"
definition BEL :: char where "BEL = CHR 0x07"
definition BACKSLASH :: char where "BACKSLASH = CHR 0x5C"
definition NEWLINE :: char where "NEWLINE = CHR 0x0A"

text \<open>The value of a \<open>char\<close> object, which is signed on x86-64 Linux. The comparisons of
  lines 95-96 decide the same with an unsigned \<open>char\<close>: see \<open>valid_title_iff\<close>.\<close>

definition char_value :: "char \<Rightarrow> int" where
  "char_value c = (if of_char c < (128::nat) then int (of_char c) else int (of_char c) - 256)"

definition STDOUT_FILENO :: int where "STDOUT_FILENO = 1"
definition STDERR_FILENO :: int where "STDERR_FILENO = 2"
definition PATH_MAX :: nat where "PATH_MAX = 4096"

subsection \<open>The operating system as seen by the library\<close>

text \<open>
  Everything the library asks of the platform is a field of \<open>world\<close>: the environment
  (\<open>getenv\<close>), the working directory as \<open>getcwd\<close> and as the link \<open>/proc/self/cwd\<close> give
  it, the text \<open>strftime\<close> produces for the current local time, the process id, what
  \<open>open\<close> returns for the log file, and how many bytes the platform's \<open>write\<close> accepts.
  The bytes delivered to each descriptor and the contents of the log file are the
  observable effects.
\<close>

record world =
  environ :: "string \<Rightarrow> string option"
  cwd_path :: "string option"
  proc_self_cwd :: "string option"
  local_time :: string
  process_id :: int
  open_result :: int
  accepted :: "int \<Rightarrow> size_t \<Rightarrow> ssize_t"
  delivered :: "int \<Rightarrow> string"
  log_file :: string
  log_descriptor :: "int option"
  stderr_text :: string

text \<open>A run of a C function returns, ends the process with \<open>exit\<close>, or faults on a read
  outside readable memory or a call through a null function pointer.\<close>

datatype 'a outcome = Returns 'a | Exits int world | Fault

text \<open>The type of \<open>write\<close>: descriptor, buffer (\<open>None\<close> is the null pointer), count.\<close>

type_synonym prim = "int \<Rightarrow> string option \<Rightarrow> size_t \<Rightarrow> world \<Rightarrow> ssize_t \<times> world"

text \<open>
  The library's own static state: the function pointer \<open>original_write\<close> and the
  \<open>pthread_once\<close> control \<open>init_once\<close>; \<open>dlsym_write\<close> is what
  \<open>dlsym(RTLD_NEXT, "write")\<close> answers in this process (\<open>None\<close> is \<open>NULL\<close>).
\<close>

record process =
  dlsym_write :: "prim option"
  original_write :: "prim option"
  init_once :: bool

text \<open>
  The platform's \<open>write\<close>, as the statements about the log file take it: it returns
  \<open>accepted w fd count\<close> and, when that is positive, delivers that many bytes of the
  buffer, to the log file if \<open>fd\<close> is the descriptor open on it and to the stream of \<open>fd\<close>
  otherwise. The statements about \<open>write\<close> alone hold for any primitive \<open>p\<close>.
\<close>

definition posix_write :: prim where
  "posix_write fd buf count w =
     (let r = accepted w fd count in
      if 0 <s r then
        (let bytes = take (unat r) (bytes_at buf) in
         (r, if log_descriptor w = Some fd
             then w\<lparr>log_file := log_file w @ bytes\<rparr>
             else w\<lparr>delivered := (delivered w)(fd := delivered w fd @ bytes)\<rparr>))
      else (r, w))"

definition getenv :: "world \<Rightarrow> string \<Rightarrow> string option" where
  "getenv w name = environ w name"

definition getpid :: "world \<Rightarrow> int" where
  "getpid w = process_id w"

text \<open>\<open>getcwd(buffer, size)\<close> fails when the path and its terminator do not fit;
  \<open>readlink(path, buffer, bufsiz)\<close> fails for a \<open>bufsiz\<close> of 0 and otherwise stores at most
  \<open>bufsiz\<close> bytes. \<open>size_minus_one\<close> is \<open>buffer_size - 1\<close> in \<open>size_t\<close>.\<close>

definition getcwd :: "nat \<Rightarrow> world \<Rightarrow> string option" where
  "getcwd buffer_size w =
     (case cwd_path w of None \<Rightarrow> None
      | Some p \<Rightarrow> if length p < buffer_size then Some p else None)"

definition readlink_cwd :: "nat \<Rightarrow> world \<Rightarrow> string option" where
  "readlink_cwd bufsiz w =
     (if bufsiz = 0 then None else map_option (take bufsiz) (proc_self_cwd w))"

definition size_minus_one :: "nat \<Rightarrow> nat" where
  "size_minus_one n = (n + 2 ^ 64 - 1) mod 2 ^ 64"

text \<open>\<open>open(TITLE_LOG_FILE, O_WRONLY | O_CREAT | O_APPEND, 0644)\<close> and \<open>close\<close>.\<close>

definition open_log :: "world \<Rightarrow> int \<times> world" where
  "open_log w =
     (if 0 \<le> open_result w
      then (open_result w, w\<lparr>log_descriptor := Some (open_result w)\<rparr>)
      else (- 1, w))"

definition close_fd :: "int \<Rightarrow> world \<Rightarrow> world" where
  "close_fd fd w = (if log_descriptor w = Some fd then w\<lparr>log_descriptor := None\<rparr> else w)"

subsection \<open>Formatting\<close>

text \<open>The conversion \<open>%d\<close>.\<close>

definition digit :: "nat \<Rightarrow> char" where
  "digit d = ''0123456789'' ! d"

function dec_nat :: "nat \<Rightarrow> string" where
  "dec_nat n = (if n < 10 then [digit n] else dec_nat (n div 10) @ [digit (n mod 10)])"
  by pat_completeness auto
termination
  by (relation "measure id") auto

definition dec_int :: "int \<Rightarrow> string" where
  "dec_int i = (if i < 0 then CHR ''-'' # dec_nat (nat (- i)) else dec_nat (nat i))"

text \<open>The text of \<open>"%s|%d|%s|%s\n"\<close> for a time stamp, a pid, a directory and a title.\<close>

definition log_line :: "string \<Rightarrow> int \<Rightarrow> string \<Rightarrow> string \<Rightarrow> string" where
  "log_line timestamp pid cwd title =
     timestamp @ ''|'' @ dec_int pid @ ''|'' @ cwd @ ''|'' @ title @ [NEWLINE]"

text \<open>\<open>snprintf(buffer, size, ...)\<close>: the string left in the buffer and the returned
  length, which is that of the whole text.\<close>

definition snprintf :: "nat \<Rightarrow> string \<Rightarrow> string \<times> int" where
  "snprintf buffer_size text = (take (buffer_size - 1) text, int (length text))"

subsection \<open>\<open>init_original_write\<close> (lines 24-30) and \<open>pthread_once\<close>\<close>

definition init_original_write :: "process \<Rightarrow> world \<Rightarrow> (process \<times> world) outcome" where
  "init_original_write s w =
     (let s' = s\<lparr>original_write := dlsym_write s\<rparr> in
      if original_write s' = None
      then Exits 1 (w\<lparr>stderr_text := stderr_text w @
             ''title_interceptor: Failed to get original write function'' @ [NEWLINE]\<rparr>)
      else Returns (s', w))"

definition pthread_once ::
  "(process \<Rightarrow> world \<Rightarrow> (process \<times> world) outcome) \<Rightarrow> process \<Rightarrow> world
     \<Rightarrow> (process \<times> world) outcome" where
  "pthread_once init_routine s w =
     (if init_once s then Returns (s, w)
      else (case init_routine s w of
              Returns (s', w') \<Rightarrow> Returns (s'\<lparr>init_once := True\<rparr>, w')
            | Exits c w' \<Rightarrow> Exits c w'
            | Fault \<Rightarrow> Fault))"

subsection \<open>\<open>get_current_working_directory\<close> (lines 33-49)\<close>

text \<open>The result is the returned flag and the string left in \<open>buffer\<close>, for a buffer of
  \<open>buffer_size\<close> bytes, \<open>buffer_size\<close> at least 1; the scanner passes \<open>PATH_MAX\<close>. With a
  \<open>buffer_size\<close> of 1 both lookups fail and the string is empty.\<close>

definition get_current_working_directory :: "nat \<Rightarrow> world \<Rightarrow> int \<times> string" where
  "get_current_working_directory buffer_size w =
     (case getcwd buffer_size w of
        Some p \<Rightarrow> (1, p)
      | None \<Rightarrow>
          (case readlink_cwd (size_minus_one buffer_size) w of
             Some t \<Rightarrow> (1, t)
           | None \<Rightarrow> (0, take (size_minus_one buffer_size) ''/unknown'')))"

subsection \<open>\<open>scan_for_title_sequences\<close> (lines 52-131)\<close>

text \<open>The test of lines 57-59, with the short circuit of \<open>&&\<close>: a byte is read only
  when the bytes before it matched.\<close>

definition is_marker :: "string \<Rightarrow> size_t \<Rightarrow> bool option" where
  "is_marker data i =
     do { c0 \<leftarrow> peek data i;
          if c0 \<noteq> ESC then Some False
          else do { c1 \<leftarrow> peek data (i + 1);
            if c1 \<noteq> CHR '']'' then Some False
            else do { c2 \<leftarrow> peek data (i + 2);
              if \<not> (c2 = CHR ''0'' \<or> c2 = CHR ''2'') then Some False
              else do { c3 \<leftarrow> peek data (i + 3);
                Some (c3 = CHR '';'') } } } }"

text \<open>The two tests of lines 67-75 at offset \<open>title_end\<close>: \<open>Some True\<close> is \<open>break\<close>.\<close>

definition at_terminator :: "string \<Rightarrow> size_t \<Rightarrow> size_t \<Rightarrow> bool option" where
  "at_terminator data count title_end =
     do { c \<leftarrow> peek data title_end;
          if c = BEL then Some True
          else if title_end < count - 1 \<and> c = ESC
          then do { d \<leftarrow> peek data (title_end + 1); Some (d = BACKSLASH) }
          else Some False }"

text \<open>The \<open>while\<close> loop of lines 66-77; the result is the final \<open>title_end\<close>.\<close>

function find_terminator :: "string \<Rightarrow> size_t \<Rightarrow> size_t \<Rightarrow> size_t option" where
  "find_terminator data count title_end =
     (if title_end < count then
        (case at_terminator data count title_end of
           None \<Rightarrow> None
         | Some True \<Rightarrow> Some title_end
         | Some False \<Rightarrow> find_terminator data count (title_end + 1))
      else Some title_end)"
  by pat_completeness auto
termination
  apply (relation "measure (\<lambda>(data, count, title_end). unat count - unat title_end)")
   apply simp
  apply (simp, unat_arith)
  done

text \<open>The validation loop of lines 93-101.\<close>

fun valid_title :: "string \<Rightarrow> bool" where
  "valid_title [] = True"
| "valid_title (c # cs) =
     (if (char_value c < 32 \<or> char_value c > 126) \<and> c \<noteq> CHR '' ''
      then False else valid_title cs)"

text \<open>Lines 104-126: the record for one title.\<close>

definition log_title :: "process \<Rightarrow> int \<Rightarrow> string \<Rightarrow> world \<Rightarrow> world outcome" where
  "log_title s pid title w =
     (let cwd = snd (get_current_working_directory PATH_MAX w);
          timestamp = local_time w;
          (log_fd, w1) = open_log w
      in if 0 \<le> log_fd then
           (let (log_entry, log_len) = snprintf 1024 (log_line timestamp pid cwd title)
            in if 0 < log_len \<and> log_len < 1024 then
                 (case original_write s of
                    None \<Rightarrow> Fault
                  | Some p \<Rightarrow>
                      Returns (close_fd log_fd (snd (p log_fd (Some log_entry) (of_int log_len) w1))))
               else Returns (close_fd log_fd w1))
         else Returns w1)"

text \<open>Lines 61-128: the body of the \<open>if\<close> for a leading marker found at offset \<open>i\<close>.\<close>

definition scan_candidate ::
  "process \<Rightarrow> string \<Rightarrow> size_t \<Rightarrow> int \<Rightarrow> size_t \<Rightarrow> world \<Rightarrow> world outcome" where
  "scan_candidate s data count pid i w =
     (let title_start = i + 4 in
      case find_terminator data count title_start of
        None \<Rightarrow> Fault
      | Some title_end \<Rightarrow>
          if title_end < count \<and> title_end > title_start then
            (let title_len = title_end - title_start;
                 title_len = (if title_len > 200 then 200 else title_len)
             in case memcpy data title_start title_len of
                  None \<Rightarrow> Fault
                | Some title \<Rightarrow>
                    if valid_title title \<and> title_len > 0
                    then log_title s pid title w
                    else Returns w)
          else Returns w)"

text \<open>The \<open>for\<close> loop of line 56, from offset \<open>i\<close>. The bound \<open>count - 4\<close> is computed in
  \<open>size_t\<close>.\<close>

function scan_from ::
  "process \<Rightarrow> string \<Rightarrow> size_t \<Rightarrow> int \<Rightarrow> size_t \<Rightarrow> world \<Rightarrow> world outcome" where
  "scan_from s data count pid i w =
     (if i < count - 4 then
        (case is_marker data i of
           None \<Rightarrow> Fault
         | Some True \<Rightarrow>
             (case scan_candidate s data count pid i w of
                Returns w' \<Rightarrow> scan_from s data count pid (i + 1) w'
              | Exits c w' \<Rightarrow> Exits c w'
              | Fault \<Rightarrow> Fault)
         | Some False \<Rightarrow> scan_from s data count pid (i + 1) w)
      else Returns w)"
  by pat_completeness auto
termination
  apply (relation "measure (\<lambda>(s, data, count, pid, i, w). unat (count - 4) - unat i)")
    apply simp
   apply (simp, unat_arith)
  apply (simp, unat_arith)
  done

definition scan_for_title_sequences ::
  "process \<Rightarrow> string \<Rightarrow> size_t \<Rightarrow> int \<Rightarrow> world \<Rightarrow> world outcome" where
  "scan_for_title_sequences s data count pid w = scan_from s data count pid 0 w"

subsection \<open>The intercepted \<open>write\<close> (lines 134-157) and the constructor (lines 160-170)\<close>

definition title_intercept_enabled :: "world \<Rightarrow> bool" where
  "title_intercept_enabled w =
     (case getenv w ''CATNIP_TITLE_INTERCEPT'' of None \<Rightarrow> False | Some v \<Rightarrow> v = ''1'')"

definition "write" ::
  "process \<Rightarrow> int \<Rightarrow> string option \<Rightarrow> size_t \<Rightarrow> world \<Rightarrow> (ssize_t \<times> process \<times> world) outcome" where
  "write s fd buf count w =
     (case pthread_once init_original_write s w of
        Exits c w' \<Rightarrow> Exits c w'
      | Fault \<Rightarrow> Fault
      | Returns (s1, w1) \<Rightarrow>
          (case original_write s1 of
             None \<Rightarrow> Fault
           | Some p \<Rightarrow>
               (let (result, w2) = p fd buf count w1 in
                if (fd = STDOUT_FILENO \<or> fd = STDERR_FILENO) \<and>
                   buf \<noteq> None \<and> 0 < count \<and> 0 <s result
                then
                  (if title_intercept_enabled w2 then
                     (let pid = getpid w2 in
                      case scan_for_title_sequences s1 (bytes_at buf) result pid w2 of
                        Returns w3 \<Rightarrow> Returns (result, s1, w3)
                      | Exits c w' \<Rightarrow> Exits c w'
                      | Fault \<Rightarrow> Fault)
                   else Returns (result, s1, w2))
                else Returns (result, s1, w2))))"

definition init_title_interceptor :: "process \<Rightarrow> world \<Rightarrow> (process \<times> world) outcome" where
  "init_title_interceptor s w =
     (if \<not> title_intercept_enabled w then Returns (s, w)
      else pthread_once init_original_write s w)"

subsection \<open>Vocabulary for the properties\<close>

text \<open>
  What the tests of lines 57-59 and 67-72 decide, as predicates on natural-number offsets
  inside the \<open>n\<close> scanned bytes of a buffer; the first offset from \<open>a\<close> on that holds a
  terminator, and the bytes between two offsets; the printable range 32-126; a buffer
  holding one title sequence; the state of a process in which \<open>dlsym\<close> finds the primitive
  \<open>p\<close>, before (\<open>resolved\<close>) and after (\<open>installed\<close>) the one-time initialisation; and a change
  of the environment variable between two calls.
\<close>

definition terminator_at :: "string \<Rightarrow> nat \<Rightarrow> nat \<Rightarrow> bool" where
  "terminator_at data n k \<longleftrightarrow>
     data ! k = BEL \<or> (k + 1 < n \<and> data ! k = ESC \<and> data ! (k + 1) = BACKSLASH)"

definition marker_at :: "string \<Rightarrow> nat \<Rightarrow> bool" where
  "marker_at data k \<longleftrightarrow>
     data ! k = ESC \<and> data ! (k + 1) = CHR '']'' \<and>
     (data ! (k + 2) = CHR ''0'' \<or> data ! (k + 2) = CHR ''2'') \<and> data ! (k + 3) = CHR '';''"

definition printable :: "char \<Rightarrow> bool" where
  "printable c \<longleftrightarrow> 32 \<le> (of_char c :: nat) \<and> (of_char c :: nat) \<le> 126"

definition resolved :: "process \<Rightarrow> prim \<Rightarrow> bool" where
  "resolved s p \<longleftrightarrow> dlsym_write s = Some p \<and> (init_once s \<longrightarrow> original_write s = Some p)"

definition installed :: "process \<Rightarrow> prim \<Rightarrow> process" where
  "installed s p = s\<lparr>original_write := Some p, init_once := True\<rparr>"

definition first_terminator :: "string \<Rightarrow> nat \<Rightarrow> nat \<Rightarrow> nat option" where
  "first_terminator data n a = List.find (terminator_at data n) [a..<n]"

definition payload_between :: "string \<Rightarrow> nat \<Rightarrow> nat \<Rightarrow> string" where
  "payload_between data a t = take (t - a) (drop a data)"

definition osc_title :: "char \<Rightarrow> string \<Rightarrow> string" where
  "osc_title d payload = [ESC, CHR '']'', d, CHR '';''] @ payload @ [BEL]"

definition set_toggle :: "string option \<Rightarrow> world \<Rightarrow> world" where
  "set_toggle v w = w\<lparr>environ := (environ w)(''CATNIP_TITLE_INTERCEPT'' := v)\<rparr>"

definition terminator_length :: "string \<Rightarrow> nat \<Rightarrow> nat" where
  "terminator_length data t = (if data ! t = BEL then 1 else 2)"

text \<open>A process at start-up whose platform \<open>write\<close> is \<open>posix_write\<close>, and a
  world with the toggle set, in which every byte offered is accepted.\<close>

definition demo_process :: process where
  "demo_process = \<lparr>dlsym_write = Some posix_write, original_write = None, init_once = False\<rparr>"

definition demo_world :: world where
  "demo_world =
     \<lparr>environ = (\<lambda>name. if name = ''CATNIP_TITLE_INTERCEPT'' then Some ''1'' else None),
      cwd_path = Some ''/workspace'',
      proc_self_cwd = Some ''/workspace'',
      local_time = ''2025-01-01 12:00:00'',
      process_id = 4242,
      open_result = 3,
      accepted = (\<lambda>fd count. count),
      delivered = (\<lambda>fd. []),
      log_file = [],
      log_descriptor = None,
      stderr_text = []\<rparr>"

text \<open>Buffers for the concrete runs.\<close>

definition unterminated_buffer :: string where
  "unterminated_buffer = ESC # '']0;hello world''"

definition empty_title_buffer :: string where
  "empty_title_buffer = ESC # '']2;'' @ [BEL] @ ''text''"

definition control_byte_buffer :: string where
  "control_byte_buffer = ESC # '']0;he'' @ [CHR 0x01] @ ''lo'' @ [BEL]"

definition dirty_tail_buffer :: string where
  "dirty_tail_buffer =
     ESC # '']0;'' @ replicate 200 (CHR ''a'') @ [CHR 0x01, CHR 0x02] @ [BEL]"

definition nested_buffer :: string where
  "nested_buffer =
     ESC # '']0;'' @ replicate 200 (CHR ''a'') @ ESC # '']0;evil'' @ [BEL]"

definition long_title_buffer :: string where
  "long_title_buffer = ESC # '']0;'' @ replicate 300 (CHR ''a'') @ [BEL]"

definition empty_nested_buffer :: string where
  "empty_nested_buffer = ESC # '']0;'' @ replicate 200 (CHR ''a'') @ ESC # '']0;'' @ [BEL]"

definition two_titles_buffer :: string where
  "two_titles_buffer = ESC # '']0;hi'' @ [BEL] @ ESC # '']2;yo'' @ [ESC, BACKSLASH]"

text \<open>A process in which \<open>dlsym\<close> does not find the primitive, the text the library prints
  then, and the demonstration world with a working directory of \<open>n\<close> bytes.\<close>

definition broken_process :: process where
  "broken_process = \<lparr>dlsym_write = None, original_write = None, init_once = False\<rparr>"

definition long_cwd_world :: "nat \<Rightarrow> world" where
  "long_cwd_world n = demo_world\<lparr>cwd_path := Some (replicate n (CHR ''d''))\<rparr>"

definition resolver_message :: string where
  "resolver_message = ''title_interceptor: Failed to get original write function'' @ [NEWLINE]"

section \<open>Basic facts about the loops\<close>

text \<open>
  Inside the scanned bytes the two tests of the scanner decide \<open>marker_at\<close> and
  \<open>terminator_at\<close>, the \<open>while\<close> loop finds the first terminator, and the \<open>for\<close> loop passes
  over offsets that hold no marker.
\<close>

lemma bytes_at_simps [simp]: "bytes_at (Some data) = data" "bytes_at None = []"
  by (simp_all add: bytes_at_def)

declare find_terminator.simps [simp del] scan_from.simps [simp del]

lemma peek_in: "unat i < length data \<Longrightarrow> peek data i = Some (data ! unat i)"
  by (simp add: peek_def)

lemma peek_out: "length data \<le> unat i \<Longrightarrow> peek data i = None"
  by (simp add: peek_def)

lemma unat_succ: "(e::size_t) < c \<Longrightarrow> unat (e + 1) = Suc (unat e)"
  by unat_arith

lemma p64: "(2::nat) ^ LENGTH(64) = 18446744073709551616"
  by simp

lemma at_terminator_in:
  assumes "e < count" "unat count \<le> length data"
  shows "at_terminator data count e = Some (terminator_at data (unat count) (unat e))"
proof -
  have e: "unat e < length data" using assms by unat_arith
  have lt: "e < count - 1 \<longleftrightarrow> unat e + 1 < unat count" using assms(1) by unat_arith
  have s: "unat (e + 1) = Suc (unat e)" using assms(1) by (rule unat_succ)
  show ?thesis
  proof (cases "e < count - 1")
    case True
    then have "unat (e + 1) < length data" using lt s assms(2) by simp
    then show ?thesis using True e lt s
      by (auto simp: at_terminator_def terminator_at_def peek_in BEL_def ESC_def)
  next
    case False
    then show ?thesis using e lt
      by (auto simp: at_terminator_def terminator_at_def peek_in)
  qed
qed

lemma is_marker_in:
  assumes "i < count - 4" "4 \<le> count" "unat count \<le> length data"
  shows "is_marker data i = Some (marker_at data (unat i))"
proof -
  have b: "unat i + 4 < unat count" using assms(1,2) by unat_arith
  have s1: "unat (i + 1) = unat i + 1" using assms(1,2) by unat_arith
  have s2: "unat (i + 2) = unat i + 2" using assms(1,2) by unat_arith
  have s3: "unat (i + 3) = unat i + 3" using assms(1,2) by unat_arith
  show ?thesis using b assms(3)
    by (auto simp: is_marker_def marker_at_def peek_def s1 s2 s3)
qed

lemma find_terminator_end: "\<not> e < count \<Longrightarrow> find_terminator data count e = Some e"
  by (simp add: find_terminator.simps)

lemma find_terminator_hit:
  assumes "e < count" "unat count \<le> length data" "terminator_at data (unat count) (unat e)"
  shows "find_terminator data count e = Some e"
  using assms by (subst find_terminator.simps) (simp add: at_terminator_in)

lemma find_terminator_step:
  assumes "e < count" "unat count \<le> length data" "\<not> terminator_at data (unat count) (unat e)"
  shows "find_terminator data count e = find_terminator data count (e + 1)"
  using assms by (subst find_terminator.simps) (simp add: at_terminator_in)

lemma find_terminator_skip:
  assumes "unat count \<le> length data" "e \<le> t" "t \<le> count"
      and "\<forall>k. unat e \<le> k \<and> k < unat t \<longrightarrow> \<not> terminator_at data (unat count) k"
  shows "find_terminator data count e = find_terminator data count t"
  using assms
proof (induction "unat t - unat e" arbitrary: e)
  case 0
  then have "e = t" by unat_arith
  then show ?case by simp
next
  case (Suc n)
  then have lt: "e < t" by unat_arith
  then have ec: "e < count" using Suc.prems(3) by unat_arith
  have s: "unat (e + 1) = Suc (unat e)" using ec by (rule unat_succ)
  have nt: "\<not> terminator_at data (unat count) (unat e)"
    using Suc.prems(4) lt by (simp add: word_less_nat_alt)
  have le: "e + 1 \<le> t" using lt by unat_arith
  have "find_terminator data count (e + 1) = find_terminator data count t"
  proof (rule Suc.hyps(1))
    show "n = unat t - unat (e + 1)" using Suc.hyps(2) s by simp
    show "\<forall>k. unat (e + 1) \<le> k \<and> k < unat t \<longrightarrow> \<not> terminator_at data (unat count) k"
      using Suc.prems(4) s by simp
  qed (use Suc.prems le in simp_all)
  then show ?case using find_terminator_step [OF ec Suc.prems(1) nt] by simp
qed

lemma find_terminator_first:
  assumes "unat count \<le> length data" "e \<le> t" "t < count"
      and "\<forall>k. unat e \<le> k \<and> k < unat t \<longrightarrow> \<not> terminator_at data (unat count) k"
      and "terminator_at data (unat count) (unat t)"
  shows "find_terminator data count e = Some t"
proof -
  have "t \<le> count" using assms(3) by simp
  then have "find_terminator data count e = find_terminator data count t"
    using assms by (intro find_terminator_skip) simp_all
  then show ?thesis using find_terminator_hit [OF assms(3,1,5)] by simp
qed

lemma find_terminator_none:
  assumes "unat count \<le> length data" "e \<le> count"
      and "\<forall>k. unat e \<le> k \<and> k < unat count \<longrightarrow> \<not> terminator_at data (unat count) k"
  shows "find_terminator data count e = Some count"
proof -
  have "find_terminator data count e = find_terminator data count count"
    using assms by (intro find_terminator_skip) simp_all
  then show ?thesis by (simp add: find_terminator_end)
qed

lemma first_terminator_Some:
  assumes "first_terminator data n a = Some t"
  shows "a \<le> t \<and> t < n \<and> terminator_at data n t \<and>
         (\<forall>k. a \<le> k \<and> k < t \<longrightarrow> \<not> terminator_at data n k)"
proof -
  from assms obtain i where i: "i < length [a..<n]" "terminator_at data n ([a..<n] ! i)"
    "t = [a..<n] ! i" "\<forall>j<i. \<not> terminator_at data n ([a..<n] ! j)"
    unfolding first_terminator_def find_Some_iff by blast
  have t: "t = a + i" "a + i < n" using i(1,3) by simp_all
  have "\<not> terminator_at data n k" if "a \<le> k \<and> k < t" for k
  proof -
    have "k - a < i" "[a..<n] ! (k - a) = k" using that t by auto
    then show ?thesis using i(4) by metis
  qed
  then show ?thesis using t i(2,3) by simp
qed

lemma first_terminator_None:
  assumes "first_terminator data n a = None"
  shows "\<forall>k. a \<le> k \<and> k < n \<longrightarrow> \<not> terminator_at data n k"
  using assms unfolding first_terminator_def find_None_iff by simp

lemma first_terminator_eqI:
  assumes "a \<le> t" "t < n" "terminator_at data n t"
      and "\<forall>k. a \<le> k \<and> k < t \<longrightarrow> \<not> terminator_at data n k"
  shows "first_terminator data n a = Some t"
  unfolding first_terminator_def find_Some_iff
proof (intro exI [of _ "t - a"] conjI allI impI)
  show "t - a < length [a..<n]" using assms(1,2) by simp
  show "terminator_at data n ([a..<n] ! (t - a))" using assms(1,2,3) by simp
  show "t = [a..<n] ! (t - a)" using assms(1,2) by simp
  fix j assume "j < t - a"
  then show "\<not> terminator_at data n ([a..<n] ! j)" using assms(1,2,4) by simp
qed

lemma find_terminator_first_terminator:
  assumes "unat count \<le> length data" "e \<le> count"
  shows "find_terminator data count e =
           Some (case first_terminator data (unat count) (unat e) of
                   None \<Rightarrow> count | Some t \<Rightarrow> of_nat t)"
proof (cases "first_terminator data (unat count) (unat e)")
  case None
  then show ?thesis
    using find_terminator_none [OF assms] first_terminator_None [OF None] by simp
next
  case (Some t)
  note ft = first_terminator_Some [OF Some]
  have ut: "unat (of_nat t :: size_t) = t"
    using ft by (intro le_unat_uoi [where z = count]) simp
  have "find_terminator data count e = Some (of_nat t)"
    using assms(1)
  proof (rule find_terminator_first)
    show "e \<le> of_nat t" using ft ut by (simp add: word_le_nat_alt)
    show "(of_nat t :: size_t) < count" using ft ut by (simp add: word_less_nat_alt)
  qed (use ft ut in simp_all)
  then show ?thesis using Some by simp
qed

lemma scan_from_done: "\<not> i < count - 4 \<Longrightarrow> scan_from s data count pid i w = Returns w"
  by (simp add: scan_from.simps)

lemma scan_from_no_marker:
  "i < count - 4 \<Longrightarrow> is_marker data i = Some False \<Longrightarrow>
   scan_from s data count pid i w = scan_from s data count pid (i + 1) w"
  by (subst scan_from.simps) simp

lemma scan_from_marker:
  "i < count - 4 \<Longrightarrow> is_marker data i = Some True \<Longrightarrow>
   scan_from s data count pid i w =
     (case scan_candidate s data count pid i w of
        Returns w' \<Rightarrow> scan_from s data count pid (i + 1) w'
      | Exits c w' \<Rightarrow> Exits c w'
      | Fault \<Rightarrow> Fault)"
  by (subst scan_from.simps) simp

lemma scan_from_fault:
  "i < count - 4 \<Longrightarrow> is_marker data i = None \<Longrightarrow> scan_from s data count pid i w = Fault"
  by (subst scan_from.simps) simp

lemma scan_from_skip:
  assumes "4 \<le> count" "unat count \<le> length data" "i \<le> j"
      and "\<forall>k. unat i \<le> k \<and> k < unat j \<and> k + 4 < unat count \<longrightarrow> \<not> marker_at data k"
  shows "scan_from s data count pid i w = scan_from s data count pid j w"
  using assms(3,4)
proof (induction "unat j - unat i" arbitrary: i)
  case 0
  then have "i = j" by unat_arith
  then show ?case by simp
next
  case (Suc n)
  then have lt: "i < j" by unat_arith
  show ?case
  proof (cases "i < count - 4")
    case False
    then have "\<not> j < count - 4" using lt by unat_arith
    then show ?thesis using False by (simp add: scan_from_done)
  next
    case True
    have b: "unat i + 4 < unat count" using True assms(1) by unat_arith
    have s1: "unat (i + 1) = Suc (unat i)" using True by (rule unat_succ)
    have nm: "is_marker data i = Some False"
      using is_marker_in [OF True assms(1,2)] Suc.prems(2) b lt
      by (simp add: word_less_nat_alt)
    have le: "i + 1 \<le> j" using lt by unat_arith
    have "scan_from s data count pid (i + 1) w = scan_from s data count pid j w"
    proof (rule Suc.hyps(1))
      show "n = unat j - unat (i + 1)" using Suc.hyps(2) s1 by simp
      show "i + 1 \<le> j" by (rule le)
      show "\<forall>k. unat (i + 1) \<le> k \<and> k < unat j \<and> k + 4 < unat count \<longrightarrow> \<not> marker_at data k"
        using Suc.prems(2) s1 by simp
    qed
    then show ?thesis using scan_from_no_marker [OF True nm] by simp
  qed
qed

lemma scan_from_skip_set:
  assumes "4 \<le> count" "unat count \<le> length data" "i \<le> j"
      and "ESC \<notin> set (take (unat j - unat i) (drop (unat i) data))"
  shows "scan_from s data count pid i w = scan_from s data count pid j w"
proof (rule scan_from_skip [OF assms(1,2,3)], intro allI impI)
  fix k assume k: "unat i \<le> k \<and> k < unat j \<and> k + 4 < unat count"
  then have "k - unat i < length (take (unat j - unat i) (drop (unat i) data))"
    using assms(2) by auto
  then have "take (unat j - unat i) (drop (unat i) data) ! (k - unat i) \<noteq> ESC"
    using assms(4) by (metis nth_mem)
  moreover have "take (unat j - unat i) (drop (unat i) data) ! (k - unat i) = data ! k"
  proof -
    have a: "k - unat i < unat j - unat i" and b: "unat i + (k - unat i) = k"
      and c: "unat i \<le> length data" using k assms(2) by auto
    show ?thesis by (simp add: a b c)
  qed
  ultimately have "data ! k \<noteq> ESC" by simp
  then show "\<not> marker_at data k" by (simp add: marker_at_def)
qed

section \<open>Validation, the candidate and the record\<close>

text \<open>
  The validation loop accepts exactly the bytes 32-126, whether \<open>char\<close> is signed or not.
  \<open>scan_candidate_eq\<close> describes lines 61-128 by the first terminator and the payload
  before it; \<open>log_title_written\<close> is the record appended under \<open>posix_write\<close>.
\<close>

lemma valid_title_char:
  "((char_value c < 32 \<or> char_value c > 126) \<and> c \<noteq> CHR '' '') \<longleftrightarrow> \<not> printable c"
proof -
  define x :: nat where "x = of_char c"
  have x: "x < 256" by (simp add: x_def)
  have "c = CHR '' '' \<longleftrightarrow> (of_char c :: nat) = of_char (CHR '' '')"
    by (simp only: of_char_eq_iff)
  then have sp: "c = CHR '' '' \<longleftrightarrow> x = 32" by (simp add: x_def)
  show ?thesis unfolding char_value_def printable_def x_def [symmetric] sp
    using x by auto
qed

lemma valid_title_iff: "valid_title t \<longleftrightarrow> (\<forall>c\<in>set t. printable c)"
  by (induction t) (simp_all add: valid_title_char)

lemma printable_not_control: "printable c \<Longrightarrow> c \<noteq> ESC \<and> c \<noteq> BEL"
  by (auto simp: printable_def ESC_def BEL_def)

lemma sint_small:
  assumes "unat (x :: 64 word) < 2 ^ 63"
  shows "sint x = uint x"
proof -
  have "nat (uint x) < 2 ^ 63" using assms by (simp only: unat_eq_nat_uint)
  then have "uint x < int (2 ^ 63)" by (simp only: nat_less_iff [OF uint_ge_0])
  then have "uint x < 2 ^ 63" by simp
  moreover have "- (2 ^ 63) \<le> uint x" by (rule order_trans [of _ 0]) simp_all
  ultimately have "signed_take_bit 63 (uint x) = uint x"
    by (rule signed_take_bit_int_eq_self [rotated])
  then show ?thesis by (simp add: sint_uint)
qed

lemma sless_pos_iff:
  assumes "unat (x :: 64 word) < 2 ^ 63"
  shows "0 <s x \<longleftrightarrow> 0 < unat x"
proof -
  have "int (unat x) = uint x" by simp
  then have "0 < uint x \<longleftrightarrow> 0 < unat x" by linarith
  then show ?thesis by (simp add: word_sless_alt sint_small [OF assms])
qed

lemma unat_of_nat64: "n < 2 ^ 64 \<Longrightarrow> unat (word_of_nat n :: 64 word) = n"
  by (simp add: unat_of_nat)

lemma log_line_length:
  "length (log_line ts pid cwd title) =
     length ts + length (dec_int pid) + length cwd + length title + 4"
  by (simp add: log_line_def)

lemma log_title_written:
  assumes "original_write s = Some posix_write"
      and "0 \<le> open_result w"
      and "\<forall>count. accepted w (open_result w) count = count"
      and "length (log_line (local_time w) pid (snd (get_current_working_directory PATH_MAX w)) title) < 1024"
  shows "log_title s pid title w =
           Returns (w\<lparr>log_file := log_file w @
                        log_line (local_time w) pid (snd (get_current_working_directory PATH_MAX w)) title,
                      log_descriptor := None\<rparr>)"
proof -
  define line where
    "line = log_line (local_time w) pid (snd (get_current_working_directory PATH_MAX w)) title"
  have len: "0 < length line" "length line < 1024"
    using assms(4) by (simp_all add: line_def log_line_length)
  have u: "unat (word_of_nat (length line) :: 64 word) = length line"
    using len by (simp add: unat_of_nat64)
  have pos: "0 <s (word_of_nat (length line) :: 64 word)"
    using len u by (simp add: sless_pos_iff)
  show ?thesis
    using assms(1,2,3) len u pos
    by (simp add: log_title_def open_log_def snprintf_def posix_write_def close_fd_def
        Let_def line_def [symmetric])
qed

lemma log_title_too_long:
  assumes "0 \<le> open_result w"
      and "1024 \<le> length (log_line (local_time w) pid (snd (get_current_working_directory PATH_MAX w)) title)"
  shows "log_title s pid title w = Returns (w\<lparr>log_descriptor := None\<rparr>)"
  using assms
  by (simp add: log_title_def open_log_def snprintf_def close_fd_def Let_def)

lemma log_title_not_opened:
  assumes "open_result w < 0"
  shows "log_title s pid title w = Returns w"
  using assms
  by (simp add: log_title_def open_log_def Let_def)

lemma log_title_not_exits: "log_title s pid title w \<noteq> Exits c w'"
  by (auto simp: log_title_def Let_def open_log_def snprintf_def split: option.splits if_splits)

lemma log_title_returns:
  assumes "original_write s = Some p"
  shows "\<exists>w'. log_title s pid title w = Returns w'"
  using assms by (simp add: log_title_def Let_def split: prod.splits)

lemma scan_candidate_eq:
  assumes "i < count - 4" "4 \<le> count" "unat count \<le> length data"
  shows "scan_candidate s data count pid i w =
     (case first_terminator data (unat count) (unat i + 4) of
        None \<Rightarrow> Returns w
      | Some t \<Rightarrow>
          if t = unat i + 4 then Returns w
          else if valid_title (take 200 (payload_between data (unat i + 4) t))
               then log_title s pid (take 200 (payload_between data (unat i + 4) t)) w
               else Returns w)"
proof -
  have u4: "unat (i + 4) = unat i + 4" and b: "unat i + 4 < unat count"
    using assms(1,2) by unat_arith+
  have le: "i + 4 \<le> count" using u4 b by (simp add: word_le_nat_alt)
  note ft = find_terminator_first_terminator [OF assms(3) le, unfolded u4]
  show ?thesis
  proof (cases "first_terminator data (unat count) (unat i + 4)")
    case None
    then show ?thesis using ft by (simp add: scan_candidate_def)
  next
    case (Some t)
    note p = first_terminator_Some [OF Some]
    have ut: "unat (of_nat t :: size_t) = t"
      using p by (intro le_unat_uoi [where z = count]) simp
    have tc: "(of_nat t :: size_t) < count" using p ut by (simp add: word_less_nat_alt)
    show ?thesis
    proof (cases "t = unat i + 4")
      case True
      then have "(of_nat t :: size_t) = i + 4" using ut u4 by (simp add: word_unat_eq_iff)
      then show ?thesis using Some ft True by (simp add: scan_candidate_def)
    next
      case False
      then have gt: "(of_nat t :: size_t) > i + 4" using p ut u4 by (simp add: word_less_nat_alt)
      have len: "unat (of_nat t - (i + 4) :: size_t) = t - (unat i + 4)"
        using gt ut u4 by unat_arith
      define tl :: size_t where
        "tl = (if of_nat t - (i + 4) > 200 then 200 else of_nat t - (i + 4))"
      have utl: "unat tl = min 200 (t - (unat i + 4))"
        using len by (auto simp: tl_def word_less_nat_alt)
      have tl0: "tl > 0" using utl False p by (simp add: word_less_nat_alt)
      have mc: "memcpy data (i + 4) tl = Some (take 200 (payload_between data (unat i + 4) t))"
        using utl u4 p assms(3) by (auto simp: memcpy_def payload_between_def min_def)
      show ?thesis using False Some ft tc gt mc tl0
        by (simp add: scan_candidate_def Let_def tl_def [symmetric])
    qed
  qed
qed

lemma scan_candidate_bel:
  assumes data: "data = pre @ payload @ BEL # rest"
      and i: "unat i + 4 = length pre"
      and n: "length pre + length payload < unat count" "unat count \<le> length data"
      and clean: "BEL \<notin> set payload" "ESC \<notin> set payload \<or> BACKSLASH \<notin> set payload"
  shows "scan_candidate s data count pid i w =
           (if payload \<noteq> [] \<and> valid_title (take 200 payload)
            then log_title s pid (take 200 payload) w else Returns w)"
proof -
  define t :: size_t where "t = of_nat (length pre + length payload)"
  have ut: "unat t = length pre + length payload"
    unfolding t_def by (rule le_unat_uoi [where z = count]) (use n(1) in simp)
  have u4: "unat (i + 4) = length pre" using i n(1) by unat_arith
  have tc: "t < count" using ut n(1) by (simp add: word_less_nat_alt)
  have le: "i + 4 \<le> t" using ut u4 by (simp add: word_le_nat_alt)
  have nth_pay: "\<And>k. length pre \<le> k \<Longrightarrow> k < length pre + length payload \<Longrightarrow>
                  data ! k = payload ! (k - length pre)"
    by (auto simp: data nth_append)
  have nth_bel: "data ! (length pre + length payload) = BEL"
    by (simp add: data nth_append)
  have no_term: "\<forall>k. unat (i + 4) \<le> k \<and> k < unat t \<longrightarrow> \<not> terminator_at data (unat count) k"
  proof (intro allI impI)
    fix k assume k: "unat (i + 4) \<le> k \<and> k < unat t"
    then have a: "data ! k = payload ! (k - length pre)" "k - length pre < length payload"
      using nth_pay u4 ut by auto
    then have b: "data ! k \<noteq> BEL" using clean(1) by (metis nth_mem)
    have "data ! k \<noteq> ESC \<or> data ! (k + 1) \<noteq> BACKSLASH"
    proof (cases "ESC \<in> set payload")
      case False
      then show ?thesis using a by (metis nth_mem)
    next
      case esc: True
      show ?thesis
      proof (cases "k + 1 < length pre + length payload")
        case True
        then have "data ! (k + 1) = payload ! (k + 1 - length pre)"
          "k + 1 - length pre < length payload"
          using nth_pay [of "k + 1"] k u4 by auto
        then show ?thesis using clean(2) esc by (metis nth_mem)
      next
        case False
        then have "k + 1 = length pre + length payload" using k ut by simp
        then show ?thesis using nth_bel by (simp add: BEL_def BACKSLASH_def)
      qed
    qed
    then show "\<not> terminator_at data (unat count) k" using b by (auto simp: terminator_at_def)
  qed
  have ft: "find_terminator data count (i + 4) = Some t"
    using n(2) le tc no_term
    by (rule find_terminator_first) (simp add: terminator_at_def ut nth_bel)
  show ?thesis
  proof (cases "payload = []")
    case True
    then have "t = i + 4" using ut u4 by (simp add: word_unat_eq_iff)
    then show ?thesis using True ft by (simp add: scan_candidate_def)
  next
    case False
    then have gt: "t > i + 4" using ut u4 by (simp add: word_less_nat_alt)
    have len: "unat (t - (i + 4)) = length payload" using le ut u4 by unat_arith
    define tl :: size_t where "tl = (if t - (i + 4) > 200 then 200 else t - (i + 4))"
    have utl: "unat tl = min 200 (length payload)"
      using len by (auto simp: tl_def word_less_nat_alt)
    have tl0: "tl > 0" using utl False by (simp add: word_less_nat_alt)
    have mc: "memcpy data (i + 4) tl = Some (take 200 payload)"
      using utl u4 n by (auto simp: memcpy_def data min_def)
    show ?thesis using False ft tc gt mc tl0
      by (simp add: scan_candidate_def Let_def tl_def [symmetric])
  qed
qed

lemma retained_payload_nth:
  assumes "a \<le> k" "k < t" "k < a + 200" "t \<le> length data"
  shows "data ! k \<in> set (take 200 (payload_between data a t))"
proof -
  have lt: "k - a < min 200 (t - a)" and eq: "a + (k - a) = k" and al: "a \<le> length data"
    using assms by auto
  have "take 200 (payload_between data a t) ! (k - a) = data ! k"
    using lt eq al by (simp add: payload_between_def)
  moreover have "k - a < length (take 200 (payload_between data a t))"
    using assms by (auto simp: payload_between_def)
  ultimately show ?thesis by (metis nth_mem)
qed

lemma scan_candidate_not_exits: "scan_candidate s data count pid i w \<noteq> Exits c w'"
  by (auto simp: scan_candidate_def Let_def log_title_not_exits split: option.splits)

lemma scan_from_not_exits: "scan_from s data count pid i w \<noteq> Exits c w'"
proof (induction s data count pid i w rule: scan_from.induct)
  case (1 s data count pid i w)
  show ?case
  proof (cases "i < count - 4")
    case False
    then show ?thesis by (simp add: scan_from_done)
  next
    case True
    show ?thesis
    proof (cases "is_marker data i")
      case None
      then show ?thesis using True by (simp add: scan_from_fault)
    next
      case (Some b)
      show ?thesis
      proof (cases b)
        case False
        then show ?thesis using "1.IH"(2) [OF True] Some True by (simp add: scan_from_no_marker)
      next
        case b: True
        show ?thesis
        proof (cases "scan_candidate s data count pid i w")
          case (Returns w1)
          then show ?thesis using "1.IH"(1) [OF True _ _ Returns] Some b True
            by (simp add: scan_from_marker)
        next
          case (Exits c1 w1)
          then show ?thesis using scan_candidate_not_exits by blast
        next
          case Fault
          then show ?thesis using Some b True by (simp add: scan_from_marker)
        qed
      qed
    qed
  qed
qed

section \<open>The intercepted call\<close>

lemma scan_from_skip_dropped:
  assumes "4 \<le> count" "unat count \<le> length data" "i \<le> j"
      and "\<forall>k. unat i \<le> k \<and> k < unat j \<and> k + 4 < unat count \<and> marker_at data k \<longrightarrow>
             (\<forall>w. scan_candidate s data count pid (of_nat k) w = Returns w)"
  shows "scan_from s data count pid i w = scan_from s data count pid j w"
  using assms(3,4)
proof (induction "unat j - unat i" arbitrary: i)
  case 0
  then have "i = j" by unat_arith
  then show ?case by simp
next
  case (Suc n)
  then have lt: "i < j" by unat_arith
  show ?case
  proof (cases "i < count - 4")
    case False
    then have "\<not> j < count - 4" using lt by unat_arith
    then show ?thesis using False by (simp add: scan_from_done)
  next
    case True
    have b: "unat i + 4 < unat count" using True assms(1) by unat_arith
    have s1: "unat (i + 1) = Suc (unat i)" using True by (rule unat_succ)
    have le: "i + 1 \<le> j" using lt by unat_arith
    have ih: "scan_from s data count pid (i + 1) w = scan_from s data count pid j w"
    proof (rule Suc.hyps(1))
      show "n = unat j - unat (i + 1)" using Suc.hyps(2) s1 by simp
      show "i + 1 \<le> j" by (rule le)
      show "\<forall>k. unat (i + 1) \<le> k \<and> k < unat j \<and> k + 4 < unat count \<and> marker_at data k \<longrightarrow>
             (\<forall>w. scan_candidate s data count pid (of_nat k) w = Returns w)"
        using Suc.prems(2) s1 by simp
    qed
    show ?thesis
    proof (cases "marker_at data (unat i)")
      case False
      then have "is_marker data i = Some False" using is_marker_in [OF True assms(1,2)] by simp
      then show ?thesis using scan_from_no_marker [OF True] ih by simp
    next
      case mk: True
      then have m: "is_marker data i = Some True" using is_marker_in [OF True assms(1,2)] by simp
      have "unat i < unat j" using lt by (simp add: word_less_nat_alt)
      then have "scan_candidate s data count pid (of_nat (unat i)) w = Returns w"
        using Suc.prems(2) b mk by blast
      then have "scan_candidate s data count pid i w = Returns w" by simp
      then show ?thesis using scan_from_marker [OF True m] ih by simp
    qed
  qed
qed

text \<open>
  In a process where \<open>dlsym\<close> finds the primitive \<open>p\<close>, \<open>write\<close> is the call of \<open>p\<close> followed,
  under the conditions of lines 142-147, by the scan.
\<close>

lemma pthread_once_cases:
  "pthread_once init_original_write s w =
     (if init_once s then Returns (s, w)
      else if dlsym_write s = None
      then Exits 1 (w\<lparr>stderr_text := stderr_text w @ resolver_message\<rparr>)
      else Returns (s\<lparr>original_write := dlsym_write s, init_once := True\<rparr>, w))"
  by (simp add: pthread_once_def init_original_write_def Let_def resolver_message_def)

lemma pthread_once_resolved:
  assumes "resolved s p"
  shows "pthread_once init_original_write s w = Returns (installed s p, w)"
  using assms
  by (cases s) (auto simp: resolved_def installed_def pthread_once_def init_original_write_def Let_def)

lemma original_write_installed [simp]: "original_write (installed s p) = Some p"
  by (simp add: installed_def)

lemma resolved_installed: "resolved s p \<Longrightarrow> resolved (installed s p) p"
  by (simp add: resolved_def installed_def)

lemma installed_idem [simp]: "installed (installed s p) p = installed s p"
  by (simp add: installed_def)

lemma write_resolved:
  assumes "resolved s p" "p fd buf count w = (result, w2)"
  shows "write s fd buf count w =
     (if (fd = STDOUT_FILENO \<or> fd = STDERR_FILENO) \<and> buf \<noteq> None \<and> 0 < count \<and> 0 <s result \<and>
         title_intercept_enabled w2
      then (case scan_for_title_sequences (installed s p) (bytes_at buf) result (getpid w2) w2 of
              Returns w3 \<Rightarrow> Returns (result, installed s p, w3)
            | Exits c w' \<Rightarrow> Exits c w'
            | Fault \<Rightarrow> Fault)
      else Returns (result, installed s p, w2))"
  using assms(2) by (auto simp: write_def pthread_once_resolved [OF assms(1)])

lemma write_disabled:
  assumes "resolved s p" "p fd buf count w = (result, w2)" "\<not> title_intercept_enabled w2"
  shows "write s fd buf count w = Returns (result, installed s p, w2)"
  using assms(3) by (simp add: write_resolved [OF assms(1,2)])

lemma enabled_iff:
  "title_intercept_enabled w \<longleftrightarrow> environ w ''CATNIP_TITLE_INTERCEPT'' = Some ''1''"
  by (simp add: title_intercept_enabled_def getenv_def split: option.splits)

lemma getcwd_delivered [simp]: "getcwd n (w\<lparr>delivered := x\<rparr>) = getcwd n w"
  by (simp add: getcwd_def)

lemma readlink_cwd_delivered [simp]: "readlink_cwd n (w\<lparr>delivered := x\<rparr>) = readlink_cwd n w"
  by (simp add: readlink_cwd_def)

lemma cwd_delivered [simp]:
  "get_current_working_directory n (w\<lparr>delivered := x\<rparr>) = get_current_working_directory n w"
  by (simp add: get_current_working_directory_def split: option.splits)

lemma cwd_cong:
  "cwd_path w' = cwd_path w \<Longrightarrow> proc_self_cwd w' = proc_self_cwd w \<Longrightarrow>
   get_current_working_directory n w' = get_current_working_directory n w"
  by (simp add: get_current_working_directory_def getcwd_def readlink_cwd_def
      split: option.splits)

lemma cwd_environ [simp]:
  "get_current_working_directory n (w\<lparr>environ := x\<rparr>) = get_current_working_directory n w"
  by (rule cwd_cong) simp_all

lemma enabled_delivered [simp]:
  "title_intercept_enabled (w\<lparr>delivered := x\<rparr>) = title_intercept_enabled w"
  by (simp add: title_intercept_enabled_def getenv_def)

lemma enabled_set_toggle [simp]: "title_intercept_enabled (set_toggle v w) \<longleftrightarrow> v = Some ''1''"
  by (simp add: enabled_iff set_toggle_def)

lemma posix_write_all:
  assumes "accepted w fd count = count" "0 < unat count" "unat count < 2 ^ 63"
      and "unat count = length data" "log_descriptor w \<noteq> Some fd"
  shows "posix_write fd (Some data) count w =
           (count, w\<lparr>delivered := (delivered w)(fd := delivered w fd @ data)\<rparr>)"
  using assms by (simp add: posix_write_def sless_pos_iff)

lemma scan_clean_sequence:
  assumes d: "d = CHR ''0'' \<or> d = CHR ''2''"
      and p: "payload \<noteq> []" "\<forall>c\<in>set (take 200 payload). printable c"
      and noctl: "ESC \<notin> set payload" "BEL \<notin> set payload"
      and n: "unat count = length payload + 5"
  shows "scan_for_title_sequences s ([ESC, CHR '']'', d, CHR '';''] @ payload @ BEL # rest) count pid w =
           log_title s pid (take 200 payload) w"
proof -
  define data where "data = [ESC, CHR '']'', d, CHR '';''] @ payload @ BEL # rest"
  have c4: "4 \<le> count" using n by (simp add: word_le_nat_alt)
  have len: "unat count \<le> length data" using n by (simp add: data_def)
  have i0: "0 < count - 4" using n c4 by unat_arith
  have u4: "unat (count - 4) = length payload + 1" using n c4 by unat_arith
  have m0: "is_marker data 0 = Some True"
    using is_marker_in [OF i0 c4 len] d by (auto simp: marker_at_def data_def)
  have cand: "scan_candidate s data count pid 0 w = log_title s pid (take 200 payload) w"
  proof -
    have "scan_candidate s data count pid 0 w =
           (if payload \<noteq> [] \<and> valid_title (take 200 payload)
            then log_title s pid (take 200 payload) w else Returns w)"
      by (rule scan_candidate_bel [where pre = "[ESC, CHR '']'', d, CHR '';'']" and rest = rest])
         (use n noctl in \<open>simp_all add: data_def\<close>)
    moreover have "valid_title (take 200 payload)"
      using p(2) by (simp add: valid_title_iff)
    ultimately show ?thesis using p(1) by simp
  qed
  have rest: "scan_from s data count pid (0 + 1) w' = Returns w'" for w'
  proof -
    have "scan_from s data count pid (0 + 1) w' = scan_from s data count pid (count - 4) w'"
    proof (rule scan_from_skip [OF c4 len], goal_cases)
      case 1
      show ?case using u4 by (simp add: word_le_nat_alt)
    next
      case 2
      show ?case
      proof (intro allI impI)
        fix k assume k: "unat (0 + 1 :: size_t) \<le> k \<and> k < unat (count - 4) \<and> k + 4 < unat count"
        then have k1: "1 \<le> k" "k < length payload + 1" using u4 by simp_all
        have "data ! k \<noteq> ESC"
        proof (cases "k < 4")
          case True
          then have "k = 1 \<or> k = 2 \<or> k = 3" using k1 by arith
          then show ?thesis using d by (auto simp: data_def ESC_def)
        next
          case False
          define pre where "pre = [ESC, CHR '']'', d, CHR '';'']"
          have lp: "length pre = 4" by (simp add: pre_def)
          have "data = pre @ payload @ BEL # rest" by (simp add: data_def pre_def)
          then have "data ! k = payload ! (k - 4)" "k - 4 < length payload"
            using k1 False lp by (auto simp: nth_append)
          then show ?thesis using noctl(1) by (metis nth_mem)
        qed
        then show "\<not> marker_at data k" by (simp add: marker_at_def)
      qed
    qed
    then show ?thesis by (simp add: scan_from_done)
  qed
  have "scan_from s data count pid 0 w = log_title s pid (take 200 payload) w"
    unfolding scan_from_marker [OF i0 m0] cand
    by (cases "log_title s pid (take 200 payload) w") (simp_all add: rest [simplified])
  then show ?thesis
    by (simp add: scan_for_title_sequences_def data_def)
qed

lemma scan_single_sequence:
  assumes d: "d = CHR ''0'' \<or> d = CHR ''2''"
      and p: "payload \<noteq> []" "\<forall>c\<in>set payload. printable c"
      and n: "unat count = length payload + 5"
  shows "scan_for_title_sequences s ([ESC, CHR '']'', d, CHR '';''] @ payload @ BEL # rest) count pid w =
           log_title s pid (take 200 payload) w"
proof (rule scan_clean_sequence [OF d p(1) _ _ _ n])
  show "\<forall>c\<in>set (take 200 payload). printable c" using p(2) by (auto dest: in_set_takeD)
  show "ESC \<notin> set payload" "BEL \<notin> set payload"
    using p(2) printable_not_control by blast+
qed

lemma write_clean_sequence:
  assumes r: "resolved s posix_write"
      and fd: "fd = STDOUT_FILENO \<or> fd = STDERR_FILENO"
      and d: "d = CHR ''0'' \<or> d = CHR ''2''"
      and p: "payload \<noteq> []" "\<forall>c\<in>set (take 200 payload). printable c"
      and noctl: "ESC \<notin> set payload" "BEL \<notin> set payload"
      and n: "unat count = length payload + 5" "unat count < 2 ^ 63"
      and en: "title_intercept_enabled w"
      and acc: "accepted w fd count = count" "\<forall>c. accepted w (open_result w) c = c"
      and op: "0 \<le> open_result w" "log_descriptor w = None"
      and fits: "length (log_line (local_time w) (process_id w)
                   (snd (get_current_working_directory PATH_MAX w)) (take 200 payload)) < 1024"
  shows "write s fd (Some (osc_title d payload)) count w =
           Returns (count, installed s posix_write,
             w\<lparr>delivered := (delivered w)(fd := delivered w fd @ osc_title d payload),
               log_file := log_file w @ log_line (local_time w) (process_id w)
                   (snd (get_current_working_directory PATH_MAX w)) (take 200 payload),
               log_descriptor := None\<rparr>)"
proof -
  define w2 where "w2 = w\<lparr>delivered := (delivered w)(fd := delivered w fd @ osc_title d payload)\<rparr>"
  have pw: "posix_write fd (Some (osc_title d payload)) count w = (count, w2)"
    unfolding w2_def using acc(1) n op(2)
    by (intro posix_write_all) (simp_all add: osc_title_def)
  have pos: "0 < count" "0 <s count" using n by (simp_all add: sless_pos_iff word_less_nat_alt)
  have sc: "scan_for_title_sequences (installed s posix_write) (osc_title d payload) count (getpid w2) w2 =
              log_title (installed s posix_write) (getpid w2) (take 200 payload) w2"
    using scan_clean_sequence [OF d p noctl n(1), where rest = "[]"] by (simp add: osc_title_def)
  have lt: "log_title (installed s posix_write) (getpid w2) (take 200 payload) w2 =
              Returns (w2\<lparr>log_file := log_file w2 @ log_line (local_time w2) (getpid w2)
                   (snd (get_current_working_directory PATH_MAX w2)) (take 200 payload),
                 log_descriptor := None\<rparr>)"
    by (rule log_title_written) (use acc(2) op fits in \<open>simp_all add: w2_def getpid_def\<close>)
  show ?thesis
    using fd pos en
    by (simp add: write_resolved [OF r pw] sc lt) (simp add: w2_def getpid_def)
qed

lemma write_single_sequence:
  assumes r: "resolved s posix_write"
      and fd: "fd = STDOUT_FILENO \<or> fd = STDERR_FILENO"
      and d: "d = CHR ''0'' \<or> d = CHR ''2''"
      and p: "payload \<noteq> []" "\<forall>c\<in>set payload. printable c"
      and n: "unat count = length payload + 5" "unat count < 2 ^ 63"
      and en: "title_intercept_enabled w"
      and acc: "accepted w fd count = count" "\<forall>c. accepted w (open_result w) c = c"
      and op: "0 \<le> open_result w" "log_descriptor w = None"
      and fits: "length (log_line (local_time w) (process_id w)
                   (snd (get_current_working_directory PATH_MAX w)) (take 200 payload)) < 1024"
  shows "write s fd (Some (osc_title d payload)) count w =
           Returns (count, installed s posix_write,
             w\<lparr>delivered := (delivered w)(fd := delivered w fd @ osc_title d payload),
               log_file := log_file w @ log_line (local_time w) (process_id w)
                   (snd (get_current_working_directory PATH_MAX w)) (take 200 payload),
               log_descriptor := None\<rparr>)"
proof (rule write_clean_sequence [OF r fd d p(1) _ _ _ n en acc op fits])
  show "\<forall>c\<in>set (take 200 payload). printable c" using p(2) by (auto dest: in_set_takeD)
  show "ESC \<notin> set payload" "BEL \<notin> set payload"
    using p(2) printable_not_control by blast+
qed

section \<open>The loop bound of line 56\<close>

text \<open>
  The bound \<open>count - 4\<close> is a \<open>size_t\<close>. For a count of 1, 2 or 3 it wraps around and the
  loop leaves the buffer: the scan faults, and so does the intercepted call. For a count
  of at least 4 the scan stays inside the first \<open>count\<close> bytes: it returns when nothing
  else is readable, its result does not depend on what follows them, and the intercepted
  call returns the result of the primitive.
\<close>

lemma is_marker_reads:
  assumes "is_marker data i = Some True"
  shows "unat i < length data \<and> unat (i + 1) < length data \<and>
         unat (i + 2) < length data \<and> unat (i + 3) < length data"
  using assms
  by (auto simp: is_marker_def peek_def split: if_splits Option.bind_splits)

lemma scan_candidate_short:
  assumes "count < 4" "is_marker data i = Some True" "length data < 2 ^ 64 - 4"
  shows "scan_candidate s data count pid i w = Returns w"
proof -
  have r: "unat (i + 3) < length data" using is_marker_reads [OF assms(2)] by simp
  have i3: "unat i < length data" using is_marker_reads [OF assms(2)] by simp
  have "unat (i + 4) = unat i + 4" using i3 assms(3) p64 by unat_arith
  then have "\<not> i + 4 < count" using assms(1) by unat_arith
  then show ?thesis by (simp add: scan_candidate_def find_terminator_end)
qed

lemma scan_from_short_faults:
  assumes "0 < count" "count < 4" "length data < 2 ^ 64 - 4" "unat i \<le> length data"
  shows "scan_from s data count pid i w = Fault"
  using assms(4)
proof (induction "length data - unat i" arbitrary: i)
  case 0
  then have "length data \<le> unat i" by simp
  then have "is_marker data i = None" by (simp add: is_marker_def peek_out)
  moreover have "i < count - 4" using assms(1,2,3) "0.prems" p64 by unat_arith
  ultimately show ?case by (rule scan_from_fault [rotated])
next
  case (Suc n)
  have lt: "i < count - 4" using assms(1,2,3) Suc.prems p64 by unat_arith
  have s1: "unat (i + 1) = Suc (unat i)" using lt by (rule unat_succ)
  have ih: "scan_from s data count pid (i + 1) w = Fault"
    using Suc.hyps s1 by (intro Suc.hyps(1)) simp_all
  show ?case
  proof (cases "is_marker data i")
    case None
    then show ?thesis using lt by (simp add: scan_from_fault)
  next
    case (Some b)
    show ?thesis
    proof (cases b)
      case False
      then show ?thesis using Some lt ih by (simp add: scan_from_no_marker)
    next
      case True
      then have "scan_candidate s data count pid i w = Returns w"
        using Some assms(2,3) by (simp add: scan_candidate_short)
      then show ?thesis using Some True lt ih by (simp add: scan_from_marker)
    qed
  qed
qed

lemma scan_short_count_faults:
  assumes "0 < count" "count < 4" "length data < 2 ^ 64 - 4"
  shows "scan_for_title_sequences s data count pid w = Fault"
  unfolding scan_for_title_sequences_def
  using assms by (intro scan_from_short_faults) simp_all

lemma write_short_result_faults:
  assumes "resolved s p" "p fd (Some data) count w = (result, w2)"
      and "fd = STDOUT_FILENO \<or> fd = STDERR_FILENO" "0 < count"
      and "0 <s result" "result < 4" "title_intercept_enabled w2"
      and "length data < 2 ^ 64 - 4"
  shows "write s fd (Some data) count w = Fault"
proof -
  have "unat result < 2 ^ 63" using assms(6) by (simp add: word_less_nat_alt)
  then have "0 < unat result" using assms(5) by (simp add: sless_pos_iff)
  then have pos: "0 < result" by (simp add: word_less_nat_alt)
  have "scan_for_title_sequences (installed s p) data result (getpid w2) w2 = Fault"
    using pos assms(6,8) by (rule scan_short_count_faults)
  then show ?thesis
    using assms(3,4,5,7) by (simp add: write_resolved [OF assms(1,2)])
qed

lemma scan_candidate_returns:
  assumes "i < count - 4" "4 \<le> count" "unat count \<le> length data" "original_write s = Some p"
  shows "\<exists>w'. scan_candidate s data count pid i w = Returns w'"
  using log_title_returns [OF assms(4)]
  by (simp add: scan_candidate_eq [OF assms(1,2,3)] split: option.splits)

lemma scan_from_returns:
  assumes "4 \<le> count" "unat count \<le> length data" "original_write s = Some p"
  shows "\<exists>w'. scan_from s data count pid i w = Returns w'"
  using assms
proof (induction s data count pid i w rule: scan_from.induct)
  case (1 s data count pid i w)
  show ?case
  proof (cases "i < count - 4")
    case False
    then show ?thesis by (simp add: scan_from_done)
  next
    case True
    note m = is_marker_in [OF True "1.prems"(1,2)]
    show ?thesis
    proof (cases "marker_at data (unat i)")
      case False
      then show ?thesis
        using "1.IH"(2) [OF True _ _ "1.prems"] m True by (simp add: scan_from_no_marker)
    next
      case mk: True
      obtain w1 where c: "scan_candidate s data count pid i w = Returns w1"
        using scan_candidate_returns [OF True "1.prems"] by blast
      show ?thesis
        using "1.IH"(1) [OF True _ _ c "1.prems"] m mk True c by (simp add: scan_from_marker)
    qed
  qed
qed

lemma scan_in_bounds_returns:
  assumes "4 \<le> count" "unat count = length data" "original_write s = Some p"
  shows "\<exists>w'. scan_for_title_sequences s data count pid w = Returns w'"
  unfolding scan_for_title_sequences_def
  using assms by (intro scan_from_returns) simp_all

lemma write_returns_result:
  assumes "resolved s p" "p fd buf count w = (result, w2)"
      and "unat result \<le> length (bytes_at buf)"
      and "4 \<le> result \<or> \<not> 0 <s result \<or> \<not> title_intercept_enabled w2 \<or>
           \<not> (fd = STDOUT_FILENO \<or> fd = STDERR_FILENO)"
  shows "\<exists>w3. write s fd buf count w = Returns (result, installed s p, w3)"
proof (cases "(fd = STDOUT_FILENO \<or> fd = STDERR_FILENO) \<and> buf \<noteq> None \<and> 0 < count \<and>
    0 <s result \<and> title_intercept_enabled w2")
  case False
  then show ?thesis by (auto simp: write_resolved [OF assms(1,2)])
next
  case True
  then have "4 \<le> result" using assms(4) by blast
  then have "\<exists>w3. scan_from (installed s p) (bytes_at buf) result (getpid w2) 0 w2 = Returns w3"
    using assms(3) by (intro scan_from_returns [where p = p]) simp_all
  then obtain w3 where
    "scan_for_title_sequences (installed s p) (bytes_at buf) result (getpid w2) w2 = Returns w3"
    unfolding scan_for_title_sequences_def by blast
  then show ?thesis using True by (simp add: write_resolved [OF assms(1,2)])
qed

lemma peek_take:
  "unat j < n \<Longrightarrow> peek (take n data) j = peek data j"
  by (simp add: peek_def)

lemma terminator_at_take:
  "k < n \<Longrightarrow> terminator_at (take n data) n k = terminator_at data n k"
  by (auto simp: terminator_at_def)

lemma first_terminator_take:
  "first_terminator (take n data) n a = first_terminator data n a"
  unfolding first_terminator_def
  by (rule find_cong) (simp_all add: terminator_at_take)

lemma payload_between_take:
  "t \<le> n \<Longrightarrow> payload_between (take n data) a t = payload_between data a t"
  by (simp add: payload_between_def drop_take min_def)

lemma marker_at_take:
  "k + 4 \<le> n \<Longrightarrow> marker_at (take n data) k = marker_at data k"
  by (simp add: marker_at_def)

lemma scan_candidate_take:
  assumes "i < count - 4" "4 \<le> count" "unat count \<le> length data"
  shows "scan_candidate s (take (unat count) data) count pid i w =
         scan_candidate s data count pid i w"
proof -
  have l: "unat count \<le> length (take (unat count) data)" using assms(3) by simp
  have "t \<le> unat count" if "first_terminator data (unat count) (unat i + 4) = Some t" for t
    using first_terminator_Some [OF that] by simp
  then show ?thesis
    unfolding scan_candidate_eq [OF assms] scan_candidate_eq [OF assms(1,2) l]
    by (simp add: first_terminator_take payload_between_take split: option.splits)
qed

lemma scan_from_take:
  assumes "4 \<le> count" "unat count \<le> length data"
  shows "scan_from s (take (unat count) data) count pid i w = scan_from s data count pid i w"
  using assms
proof (induction s data count pid i w rule: scan_from.induct)
  case (1 s data count pid i w)
  have l: "unat count \<le> length (take (unat count) data)" using "1.prems"(2) by simp
  show ?case
  proof (cases "i < count - 4")
    case False
    then show ?thesis by (simp add: scan_from_done)
  next
    case True
    have b: "unat i + 4 \<le> unat count" using True "1.prems"(1) by unat_arith
    note m = is_marker_in [OF True "1.prems"(1,2)]
    have m': "is_marker (take (unat count) data) i = Some (marker_at data (unat i))"
      using is_marker_in [OF True "1.prems"(1) l] b by (simp add: marker_at_take)
    show ?thesis
    proof (cases "marker_at data (unat i)")
      case False
      then show ?thesis
        using "1.IH"(2) [OF True _ _ "1.prems"] m m' True by (simp add: scan_from_no_marker)
    next
      case mk: True
      note c = scan_candidate_take [OF True "1.prems", of s pid w]
      show ?thesis
      proof (cases "scan_candidate s data count pid i w")
        case (Returns w1)
        then show ?thesis
          using "1.IH"(1) [OF True _ _ Returns "1.prems"] m m' mk True c
          by (simp add: scan_from_marker)
      next
        case (Exits c1 w1)
        then show ?thesis using m m' mk True c by (simp add: scan_from_marker)
      next
        case Fault
        then show ?thesis using m m' mk True c by (simp add: scan_from_marker)
      qed
    qed
  qed
qed

lemma scan_ignores_bytes_past_count:
  assumes "4 \<le> count" "unat count \<le> length data"
  shows "scan_for_title_sequences s (take (unat count) data) count pid w =
         scan_for_title_sequences s data count pid w"
  unfolding scan_for_title_sequences_def using assms by (rule scan_from_take)

section \<open>The demonstration world\<close>

lemma resolved_demo: "resolved demo_process posix_write"
  by (simp add: resolved_def demo_process_def)

lemma demo_cwd: "get_current_working_directory PATH_MAX demo_world = (1, ''/workspace'')"
  by (simp add: get_current_working_directory_def getcwd_def demo_world_def PATH_MAX_def)

lemma dec_4242: "dec_int 4242 = ''4242''"
  by (simp add: dec_int_def digit_def)

lemma demo_line:
  "log_line (local_time demo_world) (process_id demo_world)
     (snd (get_current_working_directory PATH_MAX demo_world)) title =
   ''2025-01-01 12:00:00|4242|/workspace|'' @ title @ [NEWLINE]"
  by (simp add: demo_cwd log_line_def dec_4242) (simp add: demo_world_def dec_4242)

lemma printable_hello: "\<forall>c\<in>set ''hello''. printable c"
  by (simp add: printable_def)

lemma demo_log_title:
  assumes "length title \<le> 200" "cwd_path w = cwd_path demo_world"
    "local_time w = local_time demo_world" "open_result w = open_result demo_world"
    "accepted w = accepted demo_world"
  shows "log_title (installed demo_process posix_write) 4242 title w =
           Returns (w\<lparr>log_file := log_file w @ ''2025-01-01 12:00:00|4242|/workspace|'' @ title @ [NEWLINE],
                      log_descriptor := None\<rparr>)"
proof -
  have cwd: "get_current_working_directory PATH_MAX w = (1, ''/workspace'')"
    using assms(2)
    by (simp add: get_current_working_directory_def getcwd_def demo_world_def PATH_MAX_def)
  have line: "log_line (local_time w) 4242 (snd (get_current_working_directory PATH_MAX w)) title =
      ''2025-01-01 12:00:00|4242|/workspace|'' @ title @ [NEWLINE]"
    using assms(3) by (simp add: cwd log_line_def dec_4242 demo_world_def)
  have "log_title (installed demo_process posix_write) 4242 title w =
           Returns (w\<lparr>log_file := log_file w @
                        log_line (local_time w) 4242 (snd (get_current_working_directory PATH_MAX w)) title,
                      log_descriptor := None\<rparr>)"
  proof (rule log_title_written)
    show "original_write (installed demo_process posix_write) = Some posix_write" by simp
    show "0 \<le> open_result w" using assms(4) by (simp add: demo_world_def)
    show "\<forall>c. accepted w (open_result w) c = c" using assms(5) by (simp add: demo_world_def)
    show "length (log_line (local_time w) 4242
       (snd (get_current_working_directory PATH_MAX w)) title) < 1024"
      unfolding line using assms(1) by simp
  qed
  then show ?thesis by (simp only: line)
qed

lemma ft_unterminated: "first_terminator unterminated_buffer 15 4 = None"
  by code_simp

lemma ft_empty: "first_terminator empty_title_buffer 9 4 = Some 4"
  by code_simp

lemma ft_control: "first_terminator control_byte_buffer 10 4 = Some 9"
  by code_simp

lemma ft_two: "first_terminator two_titles_buffer 15 4 = Some 6"
  by code_simp

lemma ft_nested: "first_terminator nested_buffer 213 4 = Some 212"
  by code_simp

lemma ft_nested_inner: "first_terminator nested_buffer 213 208 = Some 212"
  by code_simp

lemma nested_length: "length nested_buffer = 213"
  by (simp add: nested_buffer_def)

lemma ft_long: "first_terminator long_title_buffer 305 4 = Some 304"
  by code_simp

lemma ft_empty_nested: "first_terminator empty_nested_buffer 209 4 = Some 208"
  by code_simp

lemma long_title_nth: "4 \<le> k \<Longrightarrow> k < 304 \<Longrightarrow> long_title_buffer ! k = CHR ''a''"
proof -
  assume k: "4 \<le> k" "k < 304"
  define pre where "pre = ESC # '']0;''"
  have lp: "length pre = 4" by (simp add: pre_def)
  have e: "long_title_buffer = pre @ replicate 300 (CHR ''a'') @ [BEL]"
    by (simp add: long_title_buffer_def pre_def)
  have "(pre @ replicate 300 (CHR ''a'') @ [BEL]) ! k = CHR ''a''"
    using k lp by (auto simp: nth_append)
  then show ?thesis by (simp only: e)
qed

lemma long_cwd: "n < 4096 \<Longrightarrow>
    get_current_working_directory PATH_MAX (long_cwd_world n) = (1, replicate n (CHR ''d''))"
  by (simp add: get_current_working_directory_def getcwd_def long_cwd_world_def PATH_MAX_def)

lemma long_cwd_line:
  "n < 4096 \<Longrightarrow>
   log_line (local_time (long_cwd_world n)) 4242
     (snd (get_current_working_directory PATH_MAX (long_cwd_world n))) title =
   ''2025-01-01 12:00:00|4242|'' @ replicate n (CHR ''d'') @ ''|'' @ title @ [NEWLINE]"
  by (simp add: long_cwd log_line_def dec_4242) (simp add: long_cwd_world_def demo_world_def)

section \<open>The claims\<close>

text \<open>
  C1 (transparency). The claim: for every descriptor, buffer and count the intercepted
  \<open>write\<close> returns the value the original primitive returned. The code forwards first and
  ends with \<open>return result\<close>, and \<open>write_returns_result\<close> shows that it returns that value
  whenever the scan is not run or the primitive accepted at least four bytes. But the
  scan has the bound \<open>count - 4\<close>, computed in \<open>size_t\<close>: when the primitive accepted one, two
  or three bytes the bound wraps around to almost \<open>2^64\<close>, the loop walks off the buffer,
  and the call does not return (\<open>write_short_result_faults\<close>). Here the primitive accepts
  the one byte offered on standard output and returns 1; the intercepted call faults
  instead of returning 1.
\<close>

theorem write_one_byte_faults:
  "fst (posix_write STDOUT_FILENO (Some ''a'') 1 demo_world) = 1 \<and>
   write demo_process STDOUT_FILENO (Some ''a'') 1 demo_world = Fault"
proof -
  have pw: "posix_write STDOUT_FILENO (Some ''a'') 1 demo_world =
              (1, demo_world\<lparr>delivered := (delivered demo_world)(STDOUT_FILENO := ''a'')\<rparr>)"
    by (simp add: posix_write_def demo_world_def STDOUT_FILENO_def sless_pos_iff)
  have en: "title_intercept_enabled (demo_world\<lparr>delivered := (delivered demo_world)(STDOUT_FILENO := ''a'')\<rparr>)"
    by (simp add: title_intercept_enabled_def getenv_def demo_world_def)
  have "scan_for_title_sequences (installed demo_process posix_write) ''a'' 1
          (getpid (demo_world\<lparr>delivered := (delivered demo_world)(STDOUT_FILENO := ''a'')\<rparr>))
          (demo_world\<lparr>delivered := (delivered demo_world)(STDOUT_FILENO := ''a'')\<rparr>) = Fault"
    by (rule scan_short_count_faults) simp_all
  then show ?thesis
    using en by (simp add: write_resolved [OF resolved_demo pw] pw sless_pos_iff)
qed

text \<open>
  C2 (scanner bounds). The claim: for every \<open>n > 0\<close> the scanner reads only offsets
  \<open>0..n-1\<close>. A read at an offset that is not readable is a fault, so the claim says that the
  scan of \<open>n\<close> bytes returns when exactly \<open>n\<close> bytes are readable. That holds for \<open>n \<ge> 4\<close>
  (\<open>scan_in_bounds_returns\<close>, and \<open>scan_ignores_bytes_past_count\<close>: the bytes from offset
  \<open>n\<close> on do not matter). With exactly two readable bytes and \<open>n = 2\<close> the scan faults: it
  has read the byte at offset 2, because \<open>2 - 4\<close> wraps around in \<open>size_t\<close> and the loop does
  not stop at the end of the accepted bytes.
\<close>

theorem scan_two_bytes_reads_past_end:
  "scan_for_title_sequences (installed demo_process posix_write) ''ab'' 2 4242 demo_world = Fault"
  by (rule scan_short_count_faults) simp_all

text \<open>
  C3 (single well-formed sequence). The buffer is \<open>ESC ] 0 ; hello BEL\<close>, ten bytes, written
  to standard output with the toggle on and accepted in full. When the log file can be
  opened, the platform takes the line and the line fits the 1024-byte buffer, the call
  returns 10 and the log file has grown by exactly one line, whose title field is
  \<open>hello\<close>.
\<close>

theorem single_sequence_logged:
  assumes "resolved s posix_write"
      and "title_intercept_enabled w"
      and "accepted w STDOUT_FILENO 10 = 10"
      and "\<forall>c. accepted w (open_result w) c = c"
      and "0 \<le> open_result w"
      and "log_descriptor w = None"
      and "length (log_line (local_time w) (process_id w)
                   (snd (get_current_working_directory PATH_MAX w)) ''hello'') < 1024"
  shows "write s STDOUT_FILENO (Some (ESC # '']0;hello'' @ [BEL])) 10 w =
           Returns (10, installed s posix_write,
             w\<lparr>delivered := (delivered w)
                   (STDOUT_FILENO := delivered w STDOUT_FILENO @ ESC # '']0;hello'' @ [BEL]),
               log_file := log_file w @ log_line (local_time w) (process_id w)
                   (snd (get_current_working_directory PATH_MAX w)) ''hello'',
               log_descriptor := None\<rparr>)"
  using write_single_sequence [where s = s and fd = STDOUT_FILENO and d = "CHR ''0''"
      and payload = "''hello''" and count = 10 and w = w] assms printable_hello
  by (simp add: osc_title_def)

text \<open>Witness for C3, in the demonstration world.\<close>

theorem single_sequence_logged_witness:
  "resolved demo_process posix_write \<and> title_intercept_enabled demo_world \<and>
   write demo_process STDOUT_FILENO (Some (ESC # '']0;hello'' @ [BEL])) 10 demo_world =
     Returns (10, installed demo_process posix_write,
       demo_world\<lparr>delivered := (\<lambda>fd. [])(STDOUT_FILENO := ESC # '']0;hello'' @ [BEL]),
         log_file := ''2025-01-01 12:00:00|4242|/workspace|hello'' @ [NEWLINE],
         log_descriptor := None\<rparr>)"
proof -
  have en: "title_intercept_enabled demo_world"
    by (simp add: enabled_iff demo_world_def)
  have "write demo_process STDOUT_FILENO (Some (ESC # '']0;hello'' @ [BEL])) 10 demo_world =
           Returns (10, installed demo_process posix_write,
             demo_world\<lparr>delivered := (delivered demo_world)
                   (STDOUT_FILENO := delivered demo_world STDOUT_FILENO @ ESC # '']0;hello'' @ [BEL]),
               log_file := log_file demo_world @ log_line (local_time demo_world) (process_id demo_world)
                   (snd (get_current_working_directory PATH_MAX demo_world)) ''hello'',
               log_descriptor := None\<rparr>)"
    by (rule single_sequence_logged [OF resolved_demo en])
       (simp_all add: demo_line, simp_all add: demo_world_def)
  then show ?thesis using resolved_demo en
    by (simp add: demo_line) (simp add: demo_world_def)
qed

text \<open>
  C4 (toggle gating). The environment is read inside \<open>write\<close>, after the forwarded call, on
  every call; nothing is kept from one call to the next. For any primitive \<open>p\<close> and any
  call: with a value of \<open>CATNIP_TITLE_INTERCEPT\<close> other than \<open>"1"\<close> (\<open>None\<close> is an unset
  variable) the call only forwards, so the result and the world are those of the
  primitive; with the value \<open>"1"\<close> it only forwards as well when the descriptor is neither
  standard output nor standard error, or the buffer is null, or the count is 0, or the
  result is not positive; and with the value \<open>"1"\<close> and all these conditions it is the
  forwarded call followed by the scan of the accepted bytes. So a buffer holding one
  well-formed sequence, sent with the toggle off, leaves the log file as it was; the
  toggle is then set, and the same buffer sent again appends one record.
\<close>

theorem toggle_gating:
  assumes r: "resolved s p"
  shows "(p fd buf count w = (result, w2) \<and>
          getenv w2 ''CATNIP_TITLE_INTERCEPT'' \<noteq> Some ''1'' \<longrightarrow>
            write s fd buf count w = Returns (result, installed s p, w2)) \<and>
         (p fd buf count w = (result, w2) \<and>
          getenv w2 ''CATNIP_TITLE_INTERCEPT'' = Some ''1'' \<and>
          \<not> ((fd = STDOUT_FILENO \<or> fd = STDERR_FILENO) \<and> buf \<noteq> None \<and>
             0 < count \<and> 0 <s result) \<longrightarrow>
            write s fd buf count w = Returns (result, installed s p, w2)) \<and>
         (p fd buf count w = (result, w2) \<and>
          getenv w2 ''CATNIP_TITLE_INTERCEPT'' = Some ''1'' \<and>
          (fd = STDOUT_FILENO \<or> fd = STDERR_FILENO) \<and> buf \<noteq> None \<and>
          0 < count \<and> 0 <s result \<longrightarrow>
            write s fd buf count w =
              (case scan_for_title_sequences (installed s p) (bytes_at buf) result (getpid w2) w2 of
                 Returns w3 \<Rightarrow> Returns (result, installed s p, w3)
               | Exits c w' \<Rightarrow> Exits c w'
               | Fault \<Rightarrow> Fault)) \<and>
         (p = posix_write \<and> (tfd = STDOUT_FILENO \<or> tfd = STDERR_FILENO) \<and>
          (d = CHR ''0'' \<or> d = CHR ''2'') \<and> payload \<noteq> [] \<and> (\<forall>c\<in>set payload. printable c) \<and>
          unat tcount = length payload + 5 \<and> unat tcount < 2 ^ 63 \<and>
          accepted tw = (\<lambda>fd count. count) \<and> 0 \<le> open_result tw \<and> log_descriptor tw = None \<and>
          length (log_line (local_time tw) (process_id tw)
                   (snd (get_current_working_directory PATH_MAX tw)) (take 200 payload)) < 1024 \<and>
          v \<noteq> Some ''1'' \<longrightarrow>
            write s tfd (Some (osc_title d payload)) tcount (set_toggle v tw) =
              Returns (tcount, installed s posix_write,
                (set_toggle v tw)
                  \<lparr>delivered := (delivered tw)(tfd := delivered tw tfd @ osc_title d payload)\<rparr>) \<and>
            write (installed s posix_write) tfd (Some (osc_title d payload)) tcount
                (set_toggle (Some ''1'')
                  ((set_toggle v tw)
                     \<lparr>delivered := (delivered tw)(tfd := delivered tw tfd @ osc_title d payload)\<rparr>)) =
              Returns (tcount, installed s posix_write,
                (set_toggle (Some ''1'') tw)
                  \<lparr>delivered := (delivered tw)
                      (tfd := delivered tw tfd @ osc_title d payload @ osc_title d payload),
                   log_file := log_file tw @ log_line (local_time tw) (process_id tw)
                      (snd (get_current_working_directory PATH_MAX tw)) (take 200 payload),
                   log_descriptor := None\<rparr>))"
proof (intro conjI impI)
  assume "p fd buf count w = (result, w2) \<and>
          getenv w2 ''CATNIP_TITLE_INTERCEPT'' \<noteq> Some ''1''"
  then show "write s fd buf count w = Returns (result, installed s p, w2)"
    using write_resolved [OF r, of fd buf count w result w2]
    by (simp add: enabled_iff getenv_def)
next
  assume "p fd buf count w = (result, w2) \<and>
          getenv w2 ''CATNIP_TITLE_INTERCEPT'' = Some ''1'' \<and>
          \<not> ((fd = STDOUT_FILENO \<or> fd = STDERR_FILENO) \<and> buf \<noteq> None \<and>
             0 < count \<and> 0 <s result)"
  then show "write s fd buf count w = Returns (result, installed s p, w2)"
    using write_resolved [OF r, of fd buf count w result w2] by auto
next
  assume "p fd buf count w = (result, w2) \<and>
          getenv w2 ''CATNIP_TITLE_INTERCEPT'' = Some ''1'' \<and>
          (fd = STDOUT_FILENO \<or> fd = STDERR_FILENO) \<and> buf \<noteq> None \<and>
          0 < count \<and> 0 <s result"
  then show "write s fd buf count w =
              (case scan_for_title_sequences (installed s p) (bytes_at buf) result (getpid w2) w2 of
                 Returns w3 \<Rightarrow> Returns (result, installed s p, w3)
               | Exits c w' \<Rightarrow> Exits c w'
               | Fault \<Rightarrow> Fault)"
    using write_resolved [OF r, of fd buf count w result w2]
    by (simp add: enabled_iff getenv_def)
next
  assume h: "p = posix_write \<and> (tfd = STDOUT_FILENO \<or> tfd = STDERR_FILENO) \<and>
          (d = CHR ''0'' \<or> d = CHR ''2'') \<and> payload \<noteq> [] \<and> (\<forall>c\<in>set payload. printable c) \<and>
          unat tcount = length payload + 5 \<and> unat tcount < 2 ^ 63 \<and>
          accepted tw = (\<lambda>fd count. count) \<and> 0 \<le> open_result tw \<and> log_descriptor tw = None \<and>
          length (log_line (local_time tw) (process_id tw)
                   (snd (get_current_working_directory PATH_MAX tw)) (take 200 payload)) < 1024 \<and>
          v \<noteq> Some ''1''"
  then have rp: "resolved s posix_write" using r by simp
  have pw: "posix_write tfd (Some (osc_title d payload)) tcount (set_toggle v tw) =
      (tcount, (set_toggle v tw)\<lparr>delivered := (delivered (set_toggle v tw))
          (tfd := delivered (set_toggle v tw) tfd @ osc_title d payload)\<rparr>)"
    using h by (intro posix_write_all) (simp_all add: osc_title_def set_toggle_def)
  show "write s tfd (Some (osc_title d payload)) tcount (set_toggle v tw) =
           Returns (tcount, installed s posix_write,
             (set_toggle v tw)\<lparr>delivered := (delivered tw)(tfd := delivered tw tfd @ osc_title d payload)\<rparr>)"
    using h write_disabled [OF rp pw] by (simp add: set_toggle_def enabled_iff)
  define w1 where "w1 = set_toggle (Some ''1'')
       ((set_toggle v tw)\<lparr>delivered := (delivered tw)(tfd := delivered tw tfd @ osc_title d payload)\<rparr>)"
  have "write (installed s posix_write) tfd (Some (osc_title d payload)) tcount w1 =
           Returns (tcount, installed (installed s posix_write) posix_write,
             w1\<lparr>delivered := (delivered w1)(tfd := delivered w1 tfd @ osc_title d payload),
               log_file := log_file w1 @ log_line (local_time w1) (process_id w1)
                   (snd (get_current_working_directory PATH_MAX w1)) (take 200 payload),
               log_descriptor := None\<rparr>)"
  proof (rule write_single_sequence [OF resolved_installed [OF rp]])
    show "title_intercept_enabled w1" by (simp add: w1_def)
  qed (use h in \<open>simp_all add: w1_def set_toggle_def\<close>)
  then show "write (installed s posix_write) tfd (Some (osc_title d payload)) tcount
                (set_toggle (Some ''1'')
                  ((set_toggle v tw)
                     \<lparr>delivered := (delivered tw)(tfd := delivered tw tfd @ osc_title d payload)\<rparr>)) =
              Returns (tcount, installed s posix_write,
                (set_toggle (Some ''1'') tw)
                  \<lparr>delivered := (delivered tw)
                      (tfd := delivered tw tfd @ osc_title d payload @ osc_title d payload),
                   log_file := log_file tw @ log_line (local_time tw) (process_id tw)
                      (snd (get_current_working_directory PATH_MAX tw)) (take 200 payload),
                   log_descriptor := None\<rparr>)"
    by (simp add: w1_def set_toggle_def)
qed

text \<open>Witness for C4: the variable unset and then set to \<open>"1"\<close>; the value \<open>"0"\<close>; and, with
  the value \<open>"1"\<close>, a call on descriptor 3 and a call the platform fails.\<close>

theorem toggle_gating_witness:
  "write demo_process STDOUT_FILENO (Some (osc_title (CHR ''0'') ''hello'')) 10
       (set_toggle None demo_world) =
     Returns (10, installed demo_process posix_write,
       (set_toggle None demo_world)
         \<lparr>delivered := (\<lambda>fd. [])(STDOUT_FILENO := osc_title (CHR ''0'') ''hello'')\<rparr>) \<and>
   write (installed demo_process posix_write) STDOUT_FILENO
       (Some (osc_title (CHR ''0'') ''hello'')) 10
       (set_toggle (Some ''1'') ((set_toggle None demo_world)
         \<lparr>delivered := (\<lambda>fd. [])(STDOUT_FILENO := osc_title (CHR ''0'') ''hello'')\<rparr>)) =
     Returns (10, installed demo_process posix_write,
       (set_toggle (Some ''1'') demo_world)
         \<lparr>delivered := (\<lambda>fd. [])
             (STDOUT_FILENO := osc_title (CHR ''0'') ''hello'' @ osc_title (CHR ''0'') ''hello''),
          log_file := ''2025-01-01 12:00:00|4242|/workspace|hello'' @ [NEWLINE],
          log_descriptor := None\<rparr>) \<and>
   write demo_process STDOUT_FILENO (Some (osc_title (CHR ''0'') ''hello'')) 10
       (set_toggle (Some ''0'') demo_world) =
     Returns (10, installed demo_process posix_write,
       (set_toggle (Some ''0'') demo_world)
         \<lparr>delivered := (\<lambda>fd. [])(STDOUT_FILENO := osc_title (CHR ''0'') ''hello'')\<rparr>) \<and>
   write demo_process 3 (Some (osc_title (CHR ''0'') ''hello'')) 10 demo_world =
     Returns (10, installed demo_process posix_write,
       demo_world\<lparr>delivered := (\<lambda>fd. [])(3 := osc_title (CHR ''0'') ''hello'')\<rparr>) \<and>
   write demo_process STDOUT_FILENO (Some (osc_title (CHR ''0'') ''hello'')) 10
       (demo_world\<lparr>accepted := \<lambda>fd count. - 1\<rparr>) =
     Returns (- 1, installed demo_process posix_write, demo_world\<lparr>accepted := \<lambda>fd count. - 1\<rparr>)"
proof -
  let ?buf = "osc_title (CHR ''0'') ''hello''"
  have h: "accepted demo_world = (\<lambda>fd count. count)" "0 \<le> open_result demo_world"
    "log_descriptor demo_world = None" "delivered demo_world = (\<lambda>fd. [])"
    "log_file demo_world = []"
    "environ demo_world ''CATNIP_TITLE_INTERCEPT'' = Some ''1''"
    by (simp_all add: demo_world_def)
  have fits: "length (log_line (local_time demo_world) (process_id demo_world)
       (snd (get_current_working_directory PATH_MAX demo_world)) (take 200 ''hello'')) < 1024"
    by (simp add: demo_line)
  have scen: "write demo_process STDOUT_FILENO (Some ?buf) 10 (set_toggle None demo_world) =
              Returns (10, installed demo_process posix_write,
                (set_toggle None demo_world)
                  \<lparr>delivered := (delivered demo_world)
                     (STDOUT_FILENO := delivered demo_world STDOUT_FILENO @ ?buf)\<rparr>) \<and>
            write (installed demo_process posix_write) STDOUT_FILENO (Some ?buf) 10
                (set_toggle (Some ''1'')
                  ((set_toggle None demo_world)
                     \<lparr>delivered := (delivered demo_world)
                        (STDOUT_FILENO := delivered demo_world STDOUT_FILENO @ ?buf)\<rparr>)) =
              Returns (10, installed demo_process posix_write,
                (set_toggle (Some ''1'') demo_world)
                  \<lparr>delivered := (delivered demo_world)
                      (STDOUT_FILENO := delivered demo_world STDOUT_FILENO @ ?buf @ ?buf),
                   log_file := log_file demo_world @ log_line (local_time demo_world) (process_id demo_world)
                      (snd (get_current_working_directory PATH_MAX demo_world)) (take 200 ''hello''),
                   log_descriptor := None\<rparr>)"
    using toggle_gating [OF resolved_demo,
        where tfd = STDOUT_FILENO and d = "CHR ''0''" and payload = "''hello''" and tcount = 10
          and tw = demo_world and v = None, THEN conjunct2, THEN conjunct2, THEN conjunct2]
      h(1,2,3) fits printable_hello
    by simp
  define w0 where "w0 = set_toggle (Some ''0'') demo_world"
  have pw0: "posix_write STDOUT_FILENO (Some ?buf) 10 w0 =
      (10, w0\<lparr>delivered := (delivered w0)(STDOUT_FILENO := delivered w0 STDOUT_FILENO @ ?buf)\<rparr>)"
    by (rule posix_write_all)
       (simp_all add: w0_def set_toggle_def osc_title_def demo_world_def STDOUT_FILENO_def)
  have zero: "write demo_process STDOUT_FILENO (Some ?buf) 10 w0 =
      Returns (10, installed demo_process posix_write,
        w0\<lparr>delivered := (delivered w0)(STDOUT_FILENO := delivered w0 STDOUT_FILENO @ ?buf)\<rparr>)"
    using toggle_gating [OF resolved_demo, THEN conjunct1, rule_format, OF conjI, OF pw0]
    by (simp add: getenv_def w0_def set_toggle_def)
  have pw3: "posix_write 3 (Some ?buf) 10 demo_world =
      (10, demo_world\<lparr>delivered := (delivered demo_world)(3 := delivered demo_world 3 @ ?buf)\<rparr>)"
    by (rule posix_write_all) (simp_all add: osc_title_def demo_world_def)
  have three: "write demo_process 3 (Some ?buf) 10 demo_world =
      Returns (10, installed demo_process posix_write,
        demo_world\<lparr>delivered := (delivered demo_world)(3 := delivered demo_world 3 @ ?buf)\<rparr>)"
    using toggle_gating [OF resolved_demo, THEN conjunct2, THEN conjunct1, rule_format,
        OF conjI, OF pw3]
    by (simp add: getenv_def h STDOUT_FILENO_def STDERR_FILENO_def)
  define wf where "wf = demo_world\<lparr>accepted := \<lambda>fd count. - 1\<rparr>"
  have pwf: "posix_write STDOUT_FILENO (Some ?buf) 10 wf = (- 1, wf)"
    by (simp add: posix_write_def wf_def Let_def)
  have failed: "write demo_process STDOUT_FILENO (Some ?buf) 10 wf =
      Returns (- 1, installed demo_process posix_write, wf)"
    using toggle_gating [OF resolved_demo, THEN conjunct2, THEN conjunct1, rule_format,
        OF conjI, OF pwf]
    by (simp add: getenv_def wf_def demo_world_def)
  show ?thesis
    using scen zero three failed
    by (simp add: h demo_line w0_def wf_def set_toggle_def)
qed

text \<open>
  C5 (truncation). A terminated sequence whose payload is printable and longer than 200
  bytes is logged, not dropped: the record's title is the first 200 bytes of the payload,
  and its length is exactly 200. In general, for every terminated candidate whose payload
  is longer than 200 bytes the retained title is the first 200 bytes, and what becomes of
  the candidate is decided by these bytes alone.
\<close>

theorem long_title_truncated:
  assumes "resolved s posix_write"
      and "fd = STDOUT_FILENO \<or> fd = STDERR_FILENO"
      and "d = CHR ''0'' \<or> d = CHR ''2''"
      and "200 < length payload" "\<forall>c\<in>set payload. printable c"
      and "unat count = length payload + 5" "unat count < 2 ^ 63"
      and "title_intercept_enabled w"
      and "accepted w fd count = count" "\<forall>c. accepted w (open_result w) c = c"
      and "0 \<le> open_result w" "log_descriptor w = None"
      and "length (log_line (local_time w) (process_id w)
                   (snd (get_current_working_directory PATH_MAX w)) (take 200 payload)) < 1024"
  shows "write s fd (Some (osc_title d payload)) count w =
           Returns (count, installed s posix_write,
             w\<lparr>delivered := (delivered w)(fd := delivered w fd @ osc_title d payload),
               log_file := log_file w @ log_line (local_time w) (process_id w)
                   (snd (get_current_working_directory PATH_MAX w)) (take 200 payload),
               log_descriptor := None\<rparr>) \<and>
         length (take 200 payload) = 200 \<and>
         (\<forall>s' data n i t pid w'.
            i < n - 4 \<and> 4 \<le> n \<and> unat n \<le> length data \<and>
            first_terminator data (unat n) (unat i + 4) = Some t \<and> 200 < t - (unat i + 4) \<longrightarrow>
            length (take 200 (payload_between data (unat i + 4) t)) = 200 \<and>
            scan_candidate s' data n pid i w' =
              (if valid_title (take 200 (payload_between data (unat i + 4) t))
               then log_title s' pid (take 200 (payload_between data (unat i + 4) t)) w'
               else Returns w'))"
proof (intro conjI allI impI)
  have "payload \<noteq> []" using assms(4) by auto
  then show "write s fd (Some (osc_title d payload)) count w =
           Returns (count, installed s posix_write,
             w\<lparr>delivered := (delivered w)(fd := delivered w fd @ osc_title d payload),
               log_file := log_file w @ log_line (local_time w) (process_id w)
                   (snd (get_current_working_directory PATH_MAX w)) (take 200 payload),
               log_descriptor := None\<rparr>)"
    using assms by (simp add: write_single_sequence)
  show "length (take 200 payload) = 200" using assms(4) by simp
next
  fix s' data and n i :: size_t and t pid w'
  assume h: "i < n - 4 \<and> 4 \<le> n \<and> unat n \<le> length data \<and>
            first_terminator data (unat n) (unat i + 4) = Some t \<and> 200 < t - (unat i + 4)"
  then have b: "i < n - 4" "4 \<le> n" "unat n \<le> length data" by simp_all
  have "t \<le> length data" using first_terminator_Some [of data "unat n" "unat i + 4" t] h by simp
  then show "length (take 200 (payload_between data (unat i + 4) t)) = 200"
    using h by (auto simp: payload_between_def)
  show "scan_candidate s' data n pid i w' =
              (if valid_title (take 200 (payload_between data (unat i + 4) t))
               then log_title s' pid (take 200 (payload_between data (unat i + 4) t)) w'
               else Returns w')"
    using h by (auto simp: scan_candidate_eq [OF b])
qed

text \<open>Witness for C5: a payload of 300 bytes \<open>a\<close>.\<close>

theorem long_title_truncated_witness:
  "200 < length (replicate 300 (CHR ''a'')) \<and>
   write demo_process STDOUT_FILENO (Some (osc_title (CHR ''0'') (replicate 300 (CHR ''a'')))) 305
       demo_world =
     Returns (305, installed demo_process posix_write,
       demo_world
         \<lparr>delivered := (\<lambda>fd. [])(STDOUT_FILENO := osc_title (CHR ''0'') (replicate 300 (CHR ''a''))),
          log_file := ''2025-01-01 12:00:00|4242|/workspace|'' @ replicate 200 (CHR ''a'') @ [NEWLINE],
          log_descriptor := None\<rparr>) \<and>
   length (replicate 200 (CHR ''a'')) = 200"
proof -
  have h: "accepted demo_world = (\<lambda>fd count. count)" "0 \<le> open_result demo_world"
    "log_descriptor demo_world = None" "delivered demo_world = (\<lambda>fd. [])"
    "log_file demo_world = []"
    by (simp_all add: demo_world_def)
  have en: "title_intercept_enabled demo_world" by (simp add: enabled_iff demo_world_def)
  have pr: "\<forall>c\<in>set (replicate 300 (CHR ''a'')). printable c" by (simp add: printable_def)
  have fits: "length (log_line (local_time demo_world) (process_id demo_world)
       (snd (get_current_working_directory PATH_MAX demo_world))
       (take 200 (replicate 300 (CHR ''a'')))) < 1024"
    by (simp add: demo_line)
  have n: "unat (305 :: size_t) = length (replicate 300 (CHR ''a'')) + 5"
    "unat (305 :: size_t) < 2 ^ 63" by simp_all
  have len: "200 < length (replicate 300 (CHR ''a''))" by simp
  from long_title_truncated [OF resolved_demo disjI1 [OF refl] disjI1 [OF refl] len pr n en _ _
      h(2,3) fits, THEN conjunct1]
  show ?thesis by (simp add: h demo_line)
qed

text \<open>
  C6 (drop conditions). For a leading marker found at offset \<open>i\<close>, the candidate yields no
  record, the world is unchanged and the loop moves on to \<open>i + 1\<close>, in each of three
  cases: no terminator (\<open>BEL\<close>, or \<open>ESC\<close> followed by a backslash) before the end of the scanned
  bytes; the first terminator directly after the \<open>;\<close> (empty payload); a byte outside the
  printable range 32-126 among the retained bytes, the first 200 of the payload.
\<close>

theorem dropped_candidate_no_record:
  assumes "i < count - 4" "4 \<le> count" "unat count \<le> length data"
      and "is_marker data i = Some True"
  shows "(first_terminator data (unat count) (unat i + 4) = None \<longrightarrow>
            scan_candidate s data count pid i w = Returns w \<and>
            scan_from s data count pid i w = scan_from s data count pid (i + 1) w) \<and>
         (first_terminator data (unat count) (unat i + 4) = Some (unat i + 4) \<longrightarrow>
            scan_candidate s data count pid i w = Returns w \<and>
            scan_from s data count pid i w = scan_from s data count pid (i + 1) w) \<and>
         (\<forall>t. first_terminator data (unat count) (unat i + 4) = Some t \<and>
              (\<exists>c\<in>set (take 200 (payload_between data (unat i + 4) t)). \<not> printable c) \<longrightarrow>
            scan_candidate s data count pid i w = Returns w \<and>
            scan_from s data count pid i w = scan_from s data count pid (i + 1) w)"
proof -
  have step: "scan_from s data count pid i w = scan_from s data count pid (i + 1) w"
    if "scan_candidate s data count pid i w = Returns w"
    using that by (simp add: scan_from_marker [OF assms(1,4)])
  note eq = scan_candidate_eq [OF assms(1,2,3), of s pid w]
  have a: "scan_candidate s data count pid i w = Returns w"
    if "first_terminator data (unat count) (unat i + 4) = None"
    using that eq by simp
  have b: "scan_candidate s data count pid i w = Returns w"
    if "first_terminator data (unat count) (unat i + 4) = Some (unat i + 4)"
    using that eq by simp
  have c: "scan_candidate s data count pid i w = Returns w"
    if "first_terminator data (unat count) (unat i + 4) = Some t"
       "\<exists>c\<in>set (take 200 (payload_between data (unat i + 4) t)). \<not> printable c" for t
    using that eq by (auto simp: valid_title_iff)
  show ?thesis using a b c step by blast
qed

text \<open>Witness for C6: an unterminated sequence, an empty title, and a title with the byte
  \<open>0x01\<close> in it.\<close>

theorem dropped_candidate_no_record_witness:
  "first_terminator unterminated_buffer 15 4 = None \<and>
   scan_candidate demo_process unterminated_buffer 15 4242 0 demo_world = Returns demo_world \<and>
   first_terminator empty_title_buffer 9 4 = Some 4 \<and>
   scan_candidate demo_process empty_title_buffer 9 4242 0 demo_world = Returns demo_world \<and>
   first_terminator control_byte_buffer 10 4 = Some 9 \<and>
   \<not> printable (control_byte_buffer ! 6) \<and>
   scan_candidate demo_process control_byte_buffer 10 4242 0 demo_world = Returns demo_world"
proof -
  have m1: "is_marker unterminated_buffer 0 = Some True"
    by (simp add: is_marker_def peek_def unterminated_buffer_def)
  have m2: "is_marker empty_title_buffer 0 = Some True"
    by (simp add: is_marker_def peek_def empty_title_buffer_def)
  have m3: "is_marker control_byte_buffer 0 = Some True"
    by (simp add: is_marker_def peek_def control_byte_buffer_def)
  have bad: "\<not> printable (control_byte_buffer ! 6)"
    by (simp add: control_byte_buffer_def printable_def)
  have "control_byte_buffer ! 6 \<in> set (take 200 (payload_between control_byte_buffer 4 9))"
    by (simp add: control_byte_buffer_def payload_between_def)
  then have ex: "\<exists>c\<in>set (take 200 (payload_between control_byte_buffer 4 9)). \<not> printable c"
    using bad by blast
  have a: "scan_candidate demo_process unterminated_buffer 15 4242 0 demo_world = Returns demo_world"
    using dropped_candidate_no_record [of 0 15 unterminated_buffer demo_process 4242 demo_world]
      m1 ft_unterminated by (simp add: unterminated_buffer_def)
  have b: "scan_candidate demo_process empty_title_buffer 9 4242 0 demo_world = Returns demo_world"
    using dropped_candidate_no_record [of 0 9 empty_title_buffer demo_process 4242 demo_world]
      m2 ft_empty by (simp add: empty_title_buffer_def)
  have c: "scan_candidate demo_process control_byte_buffer 10 4242 0 demo_world = Returns demo_world"
    using dropped_candidate_no_record [of 0 10 control_byte_buffer demo_process 4242 demo_world]
      m3 ft_control ex by (simp add: control_byte_buffer_def)
  show ?thesis using a b c bad ft_unterminated ft_empty ft_control by simp
qed

text \<open>
  C9 (validation stops at the truncation point). A buffer holds one sequence whose payload
  is longer than 200 bytes; its first 200 bytes are printable, the bytes after them are
  any bytes but \<open>ESC\<close> and \<open>BEL\<close>, printable or not. Sent through \<open>write\<close> with the toggle on, it
  appends exactly one record, whose title is the first 200 bytes. In general, when the
  loop finds a leading marker whose candidate is terminated, longer than 200 bytes and
  printable in its first 200 bytes, it hands these 200 bytes to the logger and goes on,
  whatever the later bytes of the payload are.
\<close>

theorem validation_stops_at_truncation:
  assumes r: "resolved s posix_write"
      and fd: "fd = STDOUT_FILENO \<or> fd = STDERR_FILENO"
      and d: "d = CHR ''0'' \<or> d = CHR ''2''"
      and long: "200 < length payload"
      and pr: "\<forall>c\<in>set (take 200 payload). printable c"
      and tail: "ESC \<notin> set (drop 200 payload)" "BEL \<notin> set (drop 200 payload)"
      and n: "unat count = length payload + 5" "unat count < 2 ^ 63"
      and en: "title_intercept_enabled w"
      and acc: "accepted w fd count = count" "\<forall>c. accepted w (open_result w) c = c"
      and op: "0 \<le> open_result w" "log_descriptor w = None"
      and fits: "length (log_line (local_time w) (process_id w)
                   (snd (get_current_working_directory PATH_MAX w)) (take 200 payload)) < 1024"
  shows "write s fd (Some (osc_title d payload)) count w =
           Returns (count, installed s posix_write,
             w\<lparr>delivered := (delivered w)(fd := delivered w fd @ osc_title d payload),
               log_file := log_file w @ log_line (local_time w) (process_id w)
                   (snd (get_current_working_directory PATH_MAX w)) (take 200 payload),
               log_descriptor := None\<rparr>) \<and>
         (\<forall>s' data m i t pid w'.
            i < m - 4 \<and> 4 \<le> m \<and> unat m \<le> length data \<and> is_marker data i = Some True \<and>
            first_terminator data (unat m) (unat i + 4) = Some t \<and> 200 < t - (unat i + 4) \<and>
            (\<forall>c\<in>set (take 200 (payload_between data (unat i + 4) t)). printable c) \<longrightarrow>
            scan_from s' data m pid i w' =
              (case log_title s' pid (take 200 (payload_between data (unat i + 4) t)) w' of
                 Returns w'' \<Rightarrow> scan_from s' data m pid (i + 1) w''
               | Exits c w'' \<Rightarrow> Exits c w''
               | Fault \<Rightarrow> Fault))"
proof (intro conjI allI impI)
  have split: "set payload = set (take 200 payload) \<union> set (drop 200 payload)"
    by (metis append_take_drop_id set_append)
  have "ESC \<notin> set (take 200 payload)" "BEL \<notin> set (take 200 payload)"
    using pr printable_not_control by blast+
  then have noctl: "ESC \<notin> set payload" "BEL \<notin> set payload"
    using tail split by simp_all
  have ne: "payload \<noteq> []" using long by auto
  show "write s fd (Some (osc_title d payload)) count w =
           Returns (count, installed s posix_write,
             w\<lparr>delivered := (delivered w)(fd := delivered w fd @ osc_title d payload),
               log_file := log_file w @ log_line (local_time w) (process_id w)
                   (snd (get_current_working_directory PATH_MAX w)) (take 200 payload),
               log_descriptor := None\<rparr>)"
    by (rule write_clean_sequence [OF r fd d ne pr noctl n en acc op fits])
next
  fix s' data and m i :: size_t and t pid w'
  assume h: "i < m - 4 \<and> 4 \<le> m \<and> unat m \<le> length data \<and> is_marker data i = Some True \<and>
            first_terminator data (unat m) (unat i + 4) = Some t \<and> 200 < t - (unat i + 4) \<and>
            (\<forall>c\<in>set (take 200 (payload_between data (unat i + 4) t)). printable c)"
  then have b: "i < m - 4" "4 \<le> m" "unat m \<le> length data" and mk: "is_marker data i = Some True"
    by simp_all
  have "scan_candidate s' data m pid i w' =
          log_title s' pid (take 200 (payload_between data (unat i + 4) t)) w'"
    using h by (auto simp: scan_candidate_eq [OF b] valid_title_iff)
  then show "scan_from s' data m pid i w' =
              (case log_title s' pid (take 200 (payload_between data (unat i + 4) t)) w' of
                 Returns w'' \<Rightarrow> scan_from s' data m pid (i + 1) w''
               | Exits c w'' \<Rightarrow> Exits c w''
               | Fault \<Rightarrow> Fault)"
    by (simp add: scan_from_marker [OF b(1) mk])
qed

text \<open>Witness for C9: 200 printable bytes followed by the bytes \<open>0x01\<close> and \<open>0x02\<close>, sent through
  \<open>write\<close>.\<close>

theorem validation_stops_at_truncation_witness:
  "dirty_tail_buffer = osc_title (CHR ''0'') (replicate 200 (CHR ''a'') @ [CHR 0x01, CHR 0x02]) \<and>
   \<not> printable (CHR 0x01) \<and> \<not> printable (CHR 0x02) \<and>
   write demo_process STDOUT_FILENO (Some dirty_tail_buffer) 207 demo_world =
     Returns (207, installed demo_process posix_write,
       demo_world\<lparr>delivered := (\<lambda>fd. [])(STDOUT_FILENO := dirty_tail_buffer),
         log_file := ''2025-01-01 12:00:00|4242|/workspace|'' @ replicate 200 (CHR ''a'') @ [NEWLINE],
         log_descriptor := None\<rparr>)"
proof -
  let ?p = "replicate 200 (CHR ''a'') @ [CHR 0x01, CHR 0x02]"
  have buf: "dirty_tail_buffer = osc_title (CHR ''0'') ?p"
    by (simp add: dirty_tail_buffer_def osc_title_def)
  have bad: "\<not> printable (CHR 0x01)" "\<not> printable (CHR 0x02)" by (simp_all add: printable_def)
  have h: "accepted demo_world = (\<lambda>fd count. count)" "0 \<le> open_result demo_world"
    "log_descriptor demo_world = None" "delivered demo_world = (\<lambda>fd. [])"
    "log_file demo_world = []"
    by (simp_all add: demo_world_def)
  have en: "title_intercept_enabled demo_world" by (simp add: enabled_iff demo_world_def)
  have t200: "take 200 ?p = replicate 200 (CHR ''a'')" by simp
  have pr: "\<forall>c\<in>set (take 200 ?p). printable c" by (simp add: printable_def)
  have tail: "ESC \<notin> set (drop 200 ?p)" "BEL \<notin> set (drop 200 ?p)"
    by (simp_all add: ESC_def BEL_def)
  have fits: "length (log_line (local_time demo_world) (process_id demo_world)
       (snd (get_current_working_directory PATH_MAX demo_world)) (take 200 ?p)) < 1024"
    by (simp add: demo_line)
  have n: "unat (207 :: size_t) = length ?p + 5" "unat (207 :: size_t) < 2 ^ 63" by simp_all
  have len: "200 < length ?p" by simp
  from validation_stops_at_truncation [OF resolved_demo disjI1 [OF refl] disjI1 [OF refl]
      len pr tail n en _ _ h(2,3) fits, THEN conjunct1]
  show ?thesis using bad by (simp add: h demo_line buf)
qed

text \<open>
  C7 (scan resumption), as amended. The loop always continues at \<open>i + 1\<close>. For a candidate
  that is yielded, a leading marker inside the consumed region (the rest of the marker,
  the payload and the terminator) can only start in the part of the payload after the
  200 retained bytes. Unless such a marker introduces a candidate that is itself yielded
  (not empty, its own retained bytes printable), the scan from \<open>i\<close> is the record for the
  title followed by the scan from the first offset after the terminator, for a payload of
  any length.
\<close>

theorem yielded_candidate_resumes_after_terminator:
  assumes b: "i < count - 4" "4 \<le> count" "unat count \<le> length data"
      and m: "is_marker data i = Some True"
      and ft: "first_terminator data (unat count) (unat i + 4) = Some t"
      and ne: "unat i + 4 < t"
      and pr: "\<forall>c\<in>set (take 200 (payload_between data (unat i + 4) t)). printable c"
      and tail: "\<forall>k. unat i + 204 \<le> k \<and> k + 4 \<le> t \<and> marker_at data k \<longrightarrow>
                   k + 4 = t \<or>
                   (\<exists>c\<in>set (take 200 (payload_between data (k + 4) t)). \<not> printable c)"
  shows "(\<forall>k. unat i < k \<and> k < t + terminator_length data t \<and> k + 4 < unat count \<and>
              marker_at data k \<longrightarrow> unat i + 204 \<le> k \<and> k + 4 \<le> t) \<and>
         scan_from s data count pid i w =
           (case log_title s pid (take 200 (payload_between data (unat i + 4) t)) w of
              Returns w' \<Rightarrow> scan_from s data count pid (of_nat (t + terminator_length data t)) w'
            | Exits c w' \<Rightarrow> Exits c w'
            | Fault \<Rightarrow> Fault)"
proof -
  note p = first_terminator_Some [OF ft]
  have mk: "marker_at data (unat i)" using is_marker_in [OF b] m by simp
  have where_marker: "unat i + 204 \<le> k \<and> k + 4 \<le> t"
    if k: "unat i < k \<and> k < t + terminator_length data t \<and> k + 4 < unat count"
      and mkk: "marker_at data k" for k
  proof -
    have "k \<le> t \<or> (k = t + 1 \<and> data ! t \<noteq> BEL)"
      using k by (auto simp: terminator_length_def split: if_splits)
    moreover have "k \<le> t \<Longrightarrow> k = unat i + 1 \<or> k = unat i + 2 \<or> k = unat i + 3 \<or>
        (unat i + 4 \<le> k \<and> k < t \<and> k < unat i + 204) \<or> (unat i + 204 \<le> k \<and> k < t) \<or> k = t"
      using k by arith
    ultimately consider "k = unat i + 1" | "k = unat i + 2" | "k = unat i + 3"
      | "unat i + 4 \<le> k \<and> k < t \<and> k < unat i + 204" | "unat i + 204 \<le> k \<and> k < t"
      | "k = t" | "k = t + 1 \<and> data ! t \<noteq> BEL"
      by blast
    then show ?thesis
    proof cases
      case 1 then show ?thesis using mk mkk by (auto simp: marker_at_def ESC_def)
    next
      case 2 then show ?thesis using mk mkk by (auto simp: marker_at_def ESC_def)
    next
      case 3 then show ?thesis using mk mkk by (auto simp: marker_at_def ESC_def)
    next
      case 4
      then have "data ! k \<in> set (take 200 (payload_between data (unat i + 4) t))"
        using p b(3) by (intro retained_payload_nth) simp_all
      then have "data ! k \<noteq> ESC" using pr printable_not_control by blast
      then show ?thesis using mkk by (simp add: marker_at_def)
    next
      case 5
      have "t \<noteq> k + 1" "t \<noteq> k + 2" "t \<noteq> k + 3"
        using p mkk by (auto simp: marker_at_def terminator_at_def ESC_def BEL_def)
      then show ?thesis using 5 by arith
    next
      case 6
      then show ?thesis using p mkk
        by (auto simp: marker_at_def terminator_at_def ESC_def BEL_def BACKSLASH_def)
    next
      case 7
      then show ?thesis using p mkk
        by (auto simp: marker_at_def terminator_at_def ESC_def BEL_def BACKSLASH_def)
    qed
  qed
  have tl: "t + terminator_length data t \<le> unat count"
    using p by (auto simp: terminator_length_def terminator_at_def)
  have uj: "unat (of_nat (t + terminator_length data t) :: size_t) = t + terminator_length data t"
    using tl by (rule le_unat_uoi)
  have cand: "scan_candidate s data count pid i w =
                log_title s pid (take 200 (payload_between data (unat i + 4) t)) w"
    using scan_candidate_eq [OF b, of s pid w] ft ne pr by (simp add: valid_title_iff)
  have u1: "unat (i + 1) = Suc (unat i)" using b(1) by (rule unat_succ)
  have dropped: "scan_candidate s data count pid (of_nat k) w' = Returns w'"
    if k: "unat i < k \<and> k < t + terminator_length data t \<and> k + 4 < unat count"
      and mkk: "marker_at data k" for k w'
  proof -
    note wm = where_marker [OF k mkk]
    have uk: "unat (of_nat k :: size_t) = k"
      using k by (intro le_unat_uoi [where z = count]) simp
    have bk: "(of_nat k :: size_t) < count - 4"
    proof -
      have "unat (count - 4) = unat count - 4" using b(2) by unat_arith
      then show ?thesis using k uk by (auto simp: word_less_nat_alt)
    qed
    have ftk: "first_terminator data (unat count) (k + 4) = Some t"
      using wm p by (intro first_terminator_eqI) auto
    have "k + 4 = t \<or> (\<exists>c\<in>set (take 200 (payload_between data (k + 4) t)). \<not> printable c)"
      using tail wm mkk by blast
    then show ?thesis
      using scan_candidate_eq [OF bk b(2,3), of s pid w'] ftk uk
      by (auto simp: valid_title_iff)
  qed
  have skip: "scan_from s data count pid (i + 1) w' =
              scan_from s data count pid (of_nat (t + terminator_length data t)) w'" for w'
  proof (rule scan_from_skip_dropped [OF b(2,3)])
    show "i + 1 \<le> of_nat (t + terminator_length data t)"
      using uj u1 ne by (simp add: word_le_nat_alt)
    show "\<forall>k. unat (i + 1) \<le> k \<and> k < unat (of_nat (t + terminator_length data t) :: size_t) \<and>
              k + 4 < unat count \<and> marker_at data k \<longrightarrow>
              (\<forall>w. scan_candidate s data count pid (of_nat k) w = Returns w)"
      using dropped uj u1 by simp
  qed
  have "scan_from s data count pid i w =
           (case log_title s pid (take 200 (payload_between data (unat i + 4) t)) w of
              Returns w' \<Rightarrow> scan_from s data count pid (of_nat (t + terminator_length data t)) w'
            | Exits c w' \<Rightarrow> Exits c w'
            | Fault \<Rightarrow> Fault)"
    unfolding scan_from_marker [OF b(1) m] cand
    by (cases "log_title s pid (take 200 (payload_between data (unat i + 4) t)) w")
       (simp_all add: skip)
  then show ?thesis using where_marker by blast
qed

text \<open>Witness for C7 as amended: two sequences back to back; a payload of 300 bytes; and a
  payload of 204 bytes that ends in a leading marker, which is examined again and, its
  own payload being empty, yields nothing.\<close>

theorem yielded_candidate_resumes_after_terminator_witness:
  "first_terminator two_titles_buffer 15 4 = Some 6 \<and>
   scan_from (installed demo_process posix_write) two_titles_buffer 15 4242 0 demo_world =
     scan_from (installed demo_process posix_write) two_titles_buffer 15 4242 7
       (demo_world\<lparr>log_file := ''2025-01-01 12:00:00|4242|/workspace|hi'' @ [NEWLINE],
                    log_descriptor := None\<rparr>) \<and>
   first_terminator long_title_buffer 305 4 = Some 304 \<and>
   scan_from (installed demo_process posix_write) long_title_buffer 305 4242 0 demo_world =
     Returns (demo_world\<lparr>log_file :=
         ''2025-01-01 12:00:00|4242|/workspace|'' @ replicate 200 (CHR ''a'') @ [NEWLINE],
       log_descriptor := None\<rparr>) \<and>
   first_terminator empty_nested_buffer 209 4 = Some 208 \<and>
   is_marker empty_nested_buffer 204 = Some True \<and>
   scan_from (installed demo_process posix_write) empty_nested_buffer 209 4242 0 demo_world =
     Returns (demo_world\<lparr>log_file :=
         ''2025-01-01 12:00:00|4242|/workspace|'' @ replicate 200 (CHR ''a'') @ [NEWLINE],
       log_descriptor := None\<rparr>)"
proof -
  let ?s = "installed demo_process posix_write"
  let ?w1 = "demo_world\<lparr>log_file :=
         ''2025-01-01 12:00:00|4242|/workspace|'' @ replicate 200 (CHR ''a'') @ [NEWLINE],
       log_descriptor := None\<rparr>"
  have m2: "is_marker two_titles_buffer 0 = Some True"
    by (simp add: is_marker_def peek_def two_titles_buffer_def)
  have pay2: "payload_between two_titles_buffer 4 6 = ''hi''"
    by (simp add: payload_between_def two_titles_buffer_def)
  have tl2: "terminator_length two_titles_buffer 6 = 1"
    by (simp add: terminator_length_def two_titles_buffer_def)
  have lt2: "log_title ?s 4242 ''hi'' demo_world =
      Returns (demo_world\<lparr>log_file := ''2025-01-01 12:00:00|4242|/workspace|hi'' @ [NEWLINE],
                    log_descriptor := None\<rparr>)"
    using demo_log_title [of "''hi''" demo_world] by (simp add: demo_world_def)
  have "scan_from ?s two_titles_buffer 15 4242 0 demo_world =
           (case log_title ?s 4242
                   (take 200 (payload_between two_titles_buffer (unat (0 :: size_t) + 4) 6)) demo_world of
              Returns w' \<Rightarrow> scan_from ?s two_titles_buffer 15 4242
                 (of_nat (6 + terminator_length two_titles_buffer 6)) w'
            | Exits c w' \<Rightarrow> Exits c w'
            | Fault \<Rightarrow> Fault)"
    by (rule yielded_candidate_resumes_after_terminator [THEN conjunct2])
       (use m2 ft_two in \<open>simp_all add: pay2 printable_def, simp_all add: two_titles_buffer_def\<close>)
  then have a: "scan_from ?s two_titles_buffer 15 4242 0 demo_world =
     scan_from ?s two_titles_buffer 15 4242 7
       (demo_world\<lparr>log_file := ''2025-01-01 12:00:00|4242|/workspace|hi'' @ [NEWLINE],
                    log_descriptor := None\<rparr>)"
    by (simp add: pay2 tl2 lt2)
  have lt200: "log_title ?s 4242 (replicate 200 (CHR ''a'')) demo_world = Returns ?w1"
    using demo_log_title [of "replicate 200 (CHR ''a'')" demo_world] by (simp add: demo_world_def)
  have m3: "is_marker long_title_buffer 0 = Some True"
    by (simp add: is_marker_def peek_def long_title_buffer_def)
  have pay3: "take 200 (payload_between long_title_buffer 4 304) = replicate 200 (CHR ''a'')"
    by (simp add: payload_between_def long_title_buffer_def)
  have tl3: "terminator_length long_title_buffer 304 = 1"
    by (simp add: terminator_length_def long_title_buffer_def nth_append)
  have tail3: "\<forall>k. unat (0 :: size_t) + 204 \<le> k \<and> k + 4 \<le> 304 \<and> marker_at long_title_buffer k \<longrightarrow>
      k + 4 = 304 \<or>
      (\<exists>c\<in>set (take 200 (payload_between long_title_buffer (k + 4) 304)). \<not> printable c)"
    using long_title_nth by (auto simp: marker_at_def ESC_def)
  have "scan_from ?s long_title_buffer 305 4242 0 demo_world =
           (case log_title ?s 4242
                   (take 200 (payload_between long_title_buffer (unat (0 :: size_t) + 4) 304)) demo_world of
              Returns w' \<Rightarrow> scan_from ?s long_title_buffer 305 4242
                 (of_nat (304 + terminator_length long_title_buffer 304)) w'
            | Exits c w' \<Rightarrow> Exits c w'
            | Fault \<Rightarrow> Fault)"
    using tail3
    by (intro yielded_candidate_resumes_after_terminator [THEN conjunct2])
       (use m3 ft_long in \<open>simp_all add: pay3 printable_def, simp_all add: long_title_buffer_def\<close>)
  then have b: "scan_from ?s long_title_buffer 305 4242 0 demo_world = Returns ?w1"
    by (simp add: pay3 tl3 lt200 scan_from_done)
  have m4: "is_marker empty_nested_buffer 0 = Some True"
    by (simp add: is_marker_def peek_def empty_nested_buffer_def)
  have m4': "is_marker empty_nested_buffer 204 = Some True"
    by (simp add: is_marker_def peek_def empty_nested_buffer_def nth_append)
  have pay4: "take 200 (payload_between empty_nested_buffer 4 208) = replicate 200 (CHR ''a'')"
    by (simp add: payload_between_def empty_nested_buffer_def)
  have tl4: "terminator_length empty_nested_buffer 208 = 1"
    by (simp add: terminator_length_def empty_nested_buffer_def nth_append)
  have tail4: "\<forall>k. unat (0 :: size_t) + 204 \<le> k \<and> k + 4 \<le> 208 \<and> marker_at empty_nested_buffer k \<longrightarrow>
      k + 4 = 208 \<or>
      (\<exists>c\<in>set (take 200 (payload_between empty_nested_buffer (k + 4) 208)). \<not> printable c)"
    by auto
  have "scan_from ?s empty_nested_buffer 209 4242 0 demo_world =
           (case log_title ?s 4242
                   (take 200 (payload_between empty_nested_buffer (unat (0 :: size_t) + 4) 208)) demo_world of
              Returns w' \<Rightarrow> scan_from ?s empty_nested_buffer 209 4242
                 (of_nat (208 + terminator_length empty_nested_buffer 208)) w'
            | Exits c w' \<Rightarrow> Exits c w'
            | Fault \<Rightarrow> Fault)"
    using tail4
    by (intro yielded_candidate_resumes_after_terminator [THEN conjunct2])
       (use m4 ft_empty_nested in \<open>simp_all add: pay4 printable_def, simp_all add: empty_nested_buffer_def\<close>)
  then have c: "scan_from ?s empty_nested_buffer 209 4242 0 demo_world = Returns ?w1"
    by (simp add: pay4 tl4 lt200 scan_from_done)
  show ?thesis using a b c ft_two ft_long ft_empty_nested m4' by simp
qed

text \<open>
  C7 as stated fails when a leading marker after the 200 retained bytes of a payload
  introduces a candidate that is itself valid. In \<open>nested_buffer\<close> the candidate at offset 0
  ends at the \<open>BEL\<close> at offset 212 and is logged with its first 200 bytes; the marker at
  offset 204, inside the region already consumed, is examined again and yields a second
  record, \<open>evil\<close>.
\<close>

theorem nested_marker_counterexample:
  "first_terminator nested_buffer 213 4 = Some 212 \<and>
   is_marker nested_buffer 204 = Some True \<and>
   scan_for_title_sequences (installed demo_process posix_write) nested_buffer 213 4242 demo_world =
     Returns (demo_world\<lparr>log_file :=
         ''2025-01-01 12:00:00|4242|/workspace|'' @ replicate 200 (CHR ''a'') @ [NEWLINE] @
         ''2025-01-01 12:00:00|4242|/workspace|evil'' @ [NEWLINE],
       log_descriptor := None\<rparr>)"
proof -
  let ?s = "installed demo_process posix_write"
  define w1 where "w1 = demo_world\<lparr>log_file :=
      ''2025-01-01 12:00:00|4242|/workspace|'' @ replicate 200 (CHR ''a'') @ [NEWLINE],
      log_descriptor := None\<rparr>"
  define w2 where "w2 = w1\<lparr>log_file := log_file w1 @
      ''2025-01-01 12:00:00|4242|/workspace|evil'' @ [NEWLINE], log_descriptor := None\<rparr>"
  have c4: "(4 :: size_t) \<le> 213" and len: "unat (213 :: size_t) \<le> length nested_buffer"
    by (simp_all add: nested_length)
  have m0: "is_marker nested_buffer 0 = Some True"
    by (simp add: is_marker_def peek_def nested_buffer_def)
  have m204: "is_marker nested_buffer 204 = Some True"
    by (simp add: is_marker_def peek_def nested_buffer_def nth_append)
  have pay0: "take 200 (payload_between nested_buffer 4 212) = replicate 200 (CHR ''a'')"
    by (simp add: payload_between_def nested_buffer_def)
  have pay1: "take 200 (payload_between nested_buffer 208 212) = ''evil''"
    by (simp add: payload_between_def nested_buffer_def)
  have v0: "valid_title (replicate 200 (CHR ''a''))" by (simp add: valid_title_iff printable_def)
  have v1: "valid_title ''evil''" by (simp add: valid_title_iff printable_def)
  have l0: "log_title ?s 4242 (replicate 200 (CHR ''a'')) demo_world = Returns w1"
    using demo_log_title [of "replicate 200 (CHR ''a'')" demo_world]
    by (simp add: w1_def) (simp add: demo_world_def)
  have l1: "log_title ?s 4242 ''evil'' w1 = Returns w2"
    using demo_log_title [of "''evil''" w1] by (simp add: w2_def) (simp add: w1_def)
  have cand0: "scan_candidate ?s nested_buffer 213 4242 0 demo_world = Returns w1"
    using scan_candidate_eq [of 0 213 nested_buffer ?s 4242 demo_world] ft_nested
    by (simp add: nested_length pay0 v0 l0 del: valid_title.simps)
  have cand1: "scan_candidate ?s nested_buffer 213 4242 204 w1 = Returns w2"
    using scan_candidate_eq [of 204 213 nested_buffer ?s 4242 w1] ft_nested_inner
    by (simp add: nested_length pay1 v1 l1 del: valid_title.simps)
  have skip0: "scan_from ?s nested_buffer 213 4242 (0 + 1) w1 = scan_from ?s nested_buffer 213 4242 204 w1"
    by (rule scan_from_skip_set [OF c4 len]) (simp_all add: nested_buffer_def ESC_def)
  have skip1: "scan_from ?s nested_buffer 213 4242 (204 + 1) w2 = scan_from ?s nested_buffer 213 4242 209 w2"
    by (rule scan_from_skip_set [OF c4 len]) (simp_all add: nested_buffer_def ESC_def)
  have fin: "scan_from ?s nested_buffer 213 4242 209 w2 = Returns w2"
    by (rule scan_from_done) simp
  have s204: "scan_from ?s nested_buffer 213 4242 204 w1 = Returns w2"
    using skip1 fin by (simp add: scan_from_marker [OF _ m204] cand1)
  have "scan_from ?s nested_buffer 213 4242 0 demo_world = Returns w2"
    using skip0 s204 by (simp add: scan_from_marker [OF _ m0] cand0)
  then show ?thesis
    using ft_nested m204 by (simp add: scan_for_title_sequences_def w2_def w1_def)
qed

text \<open>
  C8 (resolver failure is fatal). When the one-time resolution has not run and \<open>dlsym\<close>
  does not find the primitive, \<open>write\<close> ends the process with \<open>exit(1)\<close> before anything is
  forwarded, whatever its arguments, and so does the constructor when the toggle is set;
  nothing is retried. In no other circumstance does \<open>write\<close> end the process, and a value it
  returns is the value the resolved primitive returned for the same arguments: the
  library has no failure indication of its own.
\<close>

theorem resolver_failure_is_fatal:
  "(\<not> init_once s \<and> dlsym_write s = None \<longrightarrow>
      write s fd buf count w = Exits 1 (w\<lparr>stderr_text := stderr_text w @ resolver_message\<rparr>) \<and>
      (title_intercept_enabled w \<longrightarrow>
         init_title_interceptor s w = Exits 1 (w\<lparr>stderr_text := stderr_text w @ resolver_message\<rparr>))) \<and>
   (\<forall>c w'. write s fd buf count w = Exits c w' \<longrightarrow> \<not> init_once s \<and> dlsym_write s = None) \<and>
   (\<forall>r s' w'. write s fd buf count w = Returns (r, s', w') \<longrightarrow>
      (\<exists>p. original_write s' = Some p \<and> r = fst (p fd buf count w)))"
proof (intro conjI allI impI)
  assume a: "\<not> init_once s \<and> dlsym_write s = None"
  then show "write s fd buf count w = Exits 1 (w\<lparr>stderr_text := stderr_text w @ resolver_message\<rparr>)"
    by (simp add: write_def pthread_once_cases)
  assume "title_intercept_enabled w"
  then show "init_title_interceptor s w = Exits 1 (w\<lparr>stderr_text := stderr_text w @ resolver_message\<rparr>)"
    using a by (simp add: init_title_interceptor_def pthread_once_cases)
next
  fix c w' assume e: "write s fd buf count w = Exits c w'"
  show "\<not> init_once s" "dlsym_write s = None"
    using e scan_from_not_exits
    by (auto simp: write_def pthread_once_cases scan_for_title_sequences_def Let_def
        split: if_splits option.splits prod.splits outcome.splits)
next
  fix r s' w' assume e: "write s fd buf count w = Returns (r, s', w')"
  then show "\<exists>p. original_write s' = Some p \<and> r = fst (p fd buf count w)"
    by (auto simp: write_def pthread_once_cases Let_def
        split: if_splits option.splits prod.splits outcome.splits)
qed

text \<open>Witness for C8: a process in which \<open>dlsym\<close> answers \<open>NULL\<close>.\<close>

theorem resolver_failure_is_fatal_witness:
  "\<not> init_once broken_process \<and> dlsym_write broken_process = None \<and>
   write broken_process STDOUT_FILENO (Some ''hi'') 2 demo_world =
     Exits 1 (demo_world\<lparr>stderr_text := resolver_message\<rparr>) \<and>
   title_intercept_enabled demo_world \<and>
   init_title_interceptor broken_process demo_world =
     Exits 1 (demo_world\<lparr>stderr_text := resolver_message\<rparr>)"
proof -
  have b: "\<not> init_once broken_process \<and> dlsym_write broken_process = None"
    by (simp add: broken_process_def)
  have en: "title_intercept_enabled demo_world" by (simp add: enabled_iff demo_world_def)
  have st: "stderr_text demo_world = []" by (simp add: demo_world_def)
  from resolver_failure_is_fatal [of broken_process STDOUT_FILENO "Some ''hi''" 2 demo_world,
      THEN conjunct1, rule_format, OF b] b en st
  show ?thesis by simp
qed

text \<open>
  C10 (bounded record line). The line is formatted into a buffer of 1024 bytes; when its
  length is 1024 or more nothing is written: the log file is opened, if it can be, and
  closed again, and the world is otherwise unchanged, whatever the title.
\<close>

theorem long_record_dropped:
  assumes "1024 \<le> length (log_line (local_time w) pid
                      (snd (get_current_working_directory PATH_MAX w)) title)"
  shows "log_title s pid title w =
           Returns (if 0 \<le> open_result w then w\<lparr>log_descriptor := None\<rparr> else w)"
  using assms by (simp add: log_title_too_long log_title_not_opened)

text \<open>Witness for C10: the valid title \<open>hello\<close> with a working directory of 992 bytes makes a
  line of 1024 bytes, which is dropped, also when it comes through \<open>write\<close>; with 991 bytes
  the line has 1023 bytes and is written.\<close>

theorem long_record_dropped_witness:
  "valid_title ''hello'' \<and> length ''hello'' \<le> 200 \<and>
   length (log_line (local_time (long_cwd_world 992)) 4242
      (snd (get_current_working_directory PATH_MAX (long_cwd_world 992))) ''hello'') = 1024 \<and>
   log_title (installed demo_process posix_write) 4242 ''hello'' (long_cwd_world 992) =
     Returns ((long_cwd_world 992)\<lparr>log_descriptor := None\<rparr>) \<and>
   write demo_process STDOUT_FILENO (Some (osc_title (CHR ''0'') ''hello'')) 10 (long_cwd_world 992) =
     Returns (10, installed demo_process posix_write,
       (long_cwd_world 992)\<lparr>delivered := (\<lambda>fd. [])(STDOUT_FILENO := osc_title (CHR ''0'') ''hello''),
         log_descriptor := None\<rparr>) \<and>
   log_title (installed demo_process posix_write) 4242 ''hello'' (long_cwd_world 991) =
     Returns ((long_cwd_world 991)\<lparr>log_file :=
        ''2025-01-01 12:00:00|4242|'' @ replicate 991 (CHR ''d'') @ ''|hello'' @ [NEWLINE],
        log_descriptor := None\<rparr>)"
proof -
  let ?s = "installed demo_process posix_write"
  let ?w = "long_cwd_world 992"
  have v: "valid_title ''hello''" by (simp add: valid_title_iff printable_def)
  have len: "length (log_line (local_time ?w) 4242
      (snd (get_current_working_directory PATH_MAX ?w)) ''hello'') = 1024"
    by (simp add: long_cwd_line)
  have op: "0 \<le> open_result ?w" by (simp add: long_cwd_world_def demo_world_def)
  have a: "log_title ?s 4242 ''hello'' ?w = Returns (?w\<lparr>log_descriptor := None\<rparr>)"
    using long_record_dropped [of ?w 4242 "''hello''" ?s] len op by simp
  define w2 where "w2 = ?w\<lparr>delivered := (delivered ?w)
      (STDOUT_FILENO := delivered ?w STDOUT_FILENO @ osc_title (CHR ''0'') ''hello'')\<rparr>"
  have pw: "posix_write STDOUT_FILENO (Some (osc_title (CHR ''0'') ''hello'')) 10 ?w = (10, w2)"
    unfolding w2_def
    by (rule posix_write_all)
       (simp_all add: osc_title_def long_cwd_world_def demo_world_def STDOUT_FILENO_def)
  have en: "title_intercept_enabled w2"
    by (simp add: w2_def enabled_iff long_cwd_world_def demo_world_def)
  have pid: "getpid w2 = 4242" by (simp add: w2_def getpid_def long_cwd_world_def demo_world_def)
  have len2: "1024 \<le> length (log_line (local_time w2) 4242
      (snd (get_current_working_directory PATH_MAX w2)) (take 200 ''hello''))"
    using len by (simp add: w2_def)
  have op2: "0 \<le> open_result w2" using op by (simp add: w2_def)
  have sc: "scan_for_title_sequences ?s (osc_title (CHR ''0'') ''hello'') 10 4242 w2 =
      Returns (w2\<lparr>log_descriptor := None\<rparr>)"
    using scan_single_sequence [of "CHR ''0''" "''hello''" 10 ?s "[]" 4242 w2] printable_hello
      long_record_dropped [OF len2, of ?s] op2
    by (simp add: osc_title_def)
  have b: "write demo_process STDOUT_FILENO (Some (osc_title (CHR ''0'') ''hello'')) 10 ?w =
     Returns (10, ?s, w2\<lparr>log_descriptor := None\<rparr>)"
    using en by (simp add: write_resolved [OF resolved_demo pw] pid sc sless_pos_iff)
  have c: "log_title ?s 4242 ''hello'' (long_cwd_world 991) =
     Returns ((long_cwd_world 991)\<lparr>log_file := log_file (long_cwd_world 991) @
        log_line (local_time (long_cwd_world 991)) 4242
          (snd (get_current_working_directory PATH_MAX (long_cwd_world 991))) ''hello'',
        log_descriptor := None\<rparr>)"
    by (rule log_title_written)
       (simp_all add: long_cwd_line, simp_all add: long_cwd_world_def demo_world_def)
  have lf: "log_file (long_cwd_world 991) = []" "delivered ?w = (\<lambda>fd. [])"
    by (simp_all add: long_cwd_world_def demo_world_def)
  show ?thesis
    using v len a b c by (simp add: long_cwd_line lf w2_def)
qed

end
